theory Spec2Isabelle
  imports Complex_Main
begin

section \<open>The image widget: data model\<close>

text \<open>
  The component \<open>ImageProcessor\<close> keeps one image at a time in React state, hands the
  compression and the background removal to two external libraries, and manages the
  object URLs it creates for the previews. The model below is a shallow embedding of
  its callbacks: the React state, the refs and the parts of the browser the callbacks
  act on (object URLs, interval timers, toasts, saved downloads) are fields of one
  record, and every callback is a function from state to state.

  What the browser or a library returns is an argument of the callback that receives
  it: the URL string returned by \<open>URL.createObjectURL\<close>, the id returned by
  \<open>setInterval\<close>, the outcome of \<open>imageCompression\<close> and of \<open>removeBackground\<close>.
\<close>

subsection \<open>Settings\<close>

definition maxSize :: nat where
  "maxSize = 10 * 1024 * 1024"

definition upload_types :: "string list" where
  "upload_types = [''image/jpeg'', ''image/png'', ''image/webp'']"

definition processing_format :: string where
  "processing_format = ''image/png''"

subsection \<open>Files, blobs and the session\<close>

record Blob =
  blob_type :: string
  blob_bytes :: "nat list"

record File =
  file_name :: string
  file_type :: string
  file_size :: nat
  file_bytes :: "nat list"

datatype status = Pending | Processing | Completed | Failed

record ProcessedImage =
  original :: "File option"
  originalUrl :: string
  processed :: "Blob option"
  processedUrl :: "string option"
  name :: string
  status :: status

text \<open>A toast as passed to \<open>toast({title, description, variant})\<close>.\<close>

record toast =
  title :: string
  description :: string
  variant :: "string option"

text \<open>A value thrown and caught: an \<open>Error\<close> with its message, or anything else.\<close>

datatype thrown = Error string | NonError

text \<open>The two file inputs of the component.\<close>

datatype input_id = OriginalInput | UploadInput

subsection \<open>The state\<close>

text \<open>
  \<open>image_state\<close>, \<open>isProcessing\<close>, \<open>progress\<close>, \<open>isDragging\<close> and \<open>timeLeft\<close> are the five
  \<open>useState\<close> cells (\<open>image_state\<close> is the cell called \<open>image\<close>); \<open>timerRef\<close> is the ref
  of that name.

  The component renders two file inputs, both with \<open>ref={fileInputRef}\<close>: one in the
  section \<open>Original\<close>, in the branch taken when \<open>image?.originalUrl\<close> is falsy, and one in
  the upload section, rendered when \<open>!image?.original\<close>. \<open>originalInput\<close> and \<open>uploadInput\<close>
  are the values of these two elements, \<open>None\<close> for an element that is not in the
  document; \<open>fileInputRef\<close> says which of them \<open>fileInputRef.current\<close> is, \<open>None\<close> when it
  is null.

  \<open>liveUrls\<close> are the object URLs created and not yet revoked, \<open>timers\<close> the ids of the
  intervals that are set and not cleared, \<open>runs\<close> the calls of \<open>removeBackground\<close> that have
  neither resolved nor rejected yet (each named by the interval id its \<open>processImage\<close>
  holds in the local \<open>timer\<close>), \<open>toasts\<close> the toasts shown so far and \<open>downloads\<close> the
  files saved so far.

  \<open>pendingCleanup\<close> belongs to React: \<open>useEffect(() => { return cleanup; }, [cleanup])\<close>
  with \<open>cleanup = useCallback(..., [image])\<close> registers, at every commit in which
  \<open>image\<close> is a new object, the destructor of the previous effect to be run, and that
  destructor is the \<open>cleanup\<close> closed over the previous \<open>image\<close>. \<open>Some old\<close> says that
  this call is due, with \<open>old\<close> the image the closure holds.
\<close>

record widget =
  image_state :: "ProcessedImage option"
  isProcessing :: bool
  progress :: int
  isDragging :: bool
  timeLeft :: int
  timerRef :: "nat option"
  originalInput :: "string option"
  uploadInput :: "string option"
  fileInputRef :: "input_id option"
  liveUrls :: "string set"
  timers :: "nat set"
  runs :: "nat list"
  toasts :: "toast list"
  downloads :: "(string \<times> Blob) list"
  pendingCleanup :: "ProcessedImage option option"

text \<open>
  After the first render there is no image, both inputs are in the document and empty,
  and the ref is the one attached last, the input of the upload section.
\<close>

definition initial :: widget where
  "initial = \<lparr> image_state = None, isProcessing = False, progress = 0, isDragging = False,
     timeLeft = 20, timerRef = None, originalInput = Some [], uploadInput = Some [],
     fileInputRef = Some UploadInput, liveUrls = {}, timers = {},
     runs = [], toasts = [], downloads = [], pendingCleanup = None \<rparr>"

subsection \<open>Browser and React primitives\<close>

definition createObjectURL :: "string \<Rightarrow> widget \<Rightarrow> widget" where
  "createObjectURL u s = s\<lparr> liveUrls := insert u (liveUrls s) \<rparr>"

definition revokeObjectURL :: "string \<Rightarrow> widget \<Rightarrow> widget" where
  "revokeObjectURL u s = s\<lparr> liveUrls := liveUrls s - {u} \<rparr>"

definition clearInterval :: "nat \<Rightarrow> widget \<Rightarrow> widget" where
  "clearInterval t s = s\<lparr> timers := timers s - {t} \<rparr>"

definition show_toast :: "toast \<Rightarrow> widget \<Rightarrow> widget" where
  "show_toast t s = s\<lparr> toasts := toasts s @ [t] \<rparr>"

text \<open>
  \<open>setImage v\<close>: storing an object, or \<open>null\<close> over an object, gives the cell a new
  value, so the effect is due at the next commit, with the closure of the last commit;
  storing \<open>null\<close> over \<open>null\<close> changes nothing.
\<close>

definition setImage :: "ProcessedImage option \<Rightarrow> widget \<Rightarrow> widget" where
  "setImage v s =
     (if v = None \<and> image_state s = None then s
      else s\<lparr> image_state := v,
              pendingCleanup := (case pendingCleanup s of
                                   None \<Rightarrow> Some (image_state s)
                                 | Some old \<Rightarrow> Some old) \<rparr>)"

text \<open>
  \<open>fileInputRef.current.value = v\<close>, guarded by \<open>fileInputRef.current\<close> being an element.
\<close>

definition set_ref_value :: "string \<Rightarrow> widget \<Rightarrow> widget" where
  "set_ref_value v s =
     (case fileInputRef s of
        None \<Rightarrow> s
      | Some OriginalInput \<Rightarrow> s\<lparr> originalInput := map_option (\<lambda>old. v) (originalInput s) \<rparr>
      | Some UploadInput \<Rightarrow> s\<lparr> uploadInput := map_option (\<lambda>old. v) (uploadInput s) \<rparr>)"

text \<open>JavaScript truthiness of a string and of an interval id.\<close>

definition truthy_str :: "string \<Rightarrow> bool" where
  "truthy_str u = (u \<noteq> [])"

definition truthy_id :: "nat \<Rightarrow> bool" where
  "truthy_id t = (t \<noteq> 0)"

section \<open>The callbacks\<close>

subsection \<open>cleanup\<close>

text \<open>
  \<open>cleanup\<close> closes over \<open>image\<close>; the first argument, \<open>captured\<close>, is the image of
  the closure.
\<close>

definition revoke_session :: "ProcessedImage \<Rightarrow> widget \<Rightarrow> widget" where
  "revoke_session img s =
     (let s1 = (if truthy_str (originalUrl img) then revokeObjectURL (originalUrl img) s else s)
      in case processedUrl img of
           None \<Rightarrow> s1
         | Some p \<Rightarrow> if truthy_str p then revokeObjectURL p s1 else s1)"

definition clear_timerRef :: "widget \<Rightarrow> widget" where
  "clear_timerRef s =
     (case timerRef s of
        None \<Rightarrow> s
      | Some t \<Rightarrow> if truthy_id t then (clearInterval t s)\<lparr> timerRef := None \<rparr> else s)"

definition cleanup :: "ProcessedImage option \<Rightarrow> widget \<Rightarrow> widget" where
  "cleanup captured s =
     (let s1 = (case captured of None \<Rightarrow> s | Some img \<Rightarrow> revoke_session img s);
          s2 = clear_timerRef s1
      in s2\<lparr> progress := 0, timeLeft := 0, isProcessing := False \<rparr>)"

text \<open>The commit after a callback: the destructor of the previous effect runs if due.\<close>

definition flushEffects :: "widget \<Rightarrow> widget" where
  "flushEffects s =
     (case pendingCleanup s of
        None \<Rightarrow> s
      | Some old \<Rightarrow> (cleanup old s)\<lparr> pendingCleanup := None \<rparr>)"

subsection \<open>handleFileChange\<close>

definition invalid_type_msg :: string where
  "invalid_type_msg = ''Invalid file type. Please upload a JPG, PNG or WebP image.''"

definition too_large_msg :: string where
  "too_large_msg = ''File is too large. Please upload an image under 10MB.''"

text \<open>The two errors of the validation, under the names the specification gives them.\<close>

definition InvalidType :: thrown where
  "InvalidType = Error invalid_type_msg"

definition TooLarge :: thrown where
  "TooLarge = Error too_large_msg"

text \<open>The two checks at the head of the \<open>try\<close> block: \<open>Some e\<close> when \<open>e\<close> is thrown.\<close>

definition validate :: "File \<Rightarrow> thrown option" where
  "validate file =
     (if file_type file \<notin> set upload_types then Some InvalidType
      else if file_size file > maxSize then Some TooLarge
      else None)"

definition error_toast :: "thrown \<Rightarrow> toast" where
  "error_toast e = \<lparr> title = ''Error'',
       description = (case e of Error m \<Rightarrow> m | NonError \<Rightarrow> ''Failed to load image''),
       variant = Some ''destructive'' \<rparr>"

definition new_session :: "File \<Rightarrow> File \<Rightarrow> string \<Rightarrow> ProcessedImage" where
  "new_session file compressedFile imageUrl =
     \<lparr> original = Some compressedFile, originalUrl = imageUrl, processed = None,
       processedUrl = None, name = file_name file, status = Pending \<rparr>"

text \<open>
  \<open>handleFileChange files compression imageUrl\<close>: \<open>files\<close> is \<open>event.target.files?.[0]\<close>,
  \<open>compression\<close> what \<open>await imageCompression(file, options)\<close> gives (\<open>Inl\<close> when it
  throws), \<open>imageUrl\<close> what \<open>URL.createObjectURL(compressedFile)\<close> returns. Nothing of
  the state is read or written before the \<open>await\<close>, so the callback is one step, taken
  when the compression settles.
\<close>

definition handleFileChange ::
    "File option \<Rightarrow> thrown + File \<Rightarrow> string \<Rightarrow> widget \<Rightarrow> widget" where
  "handleFileChange files compression imageUrl s =
     (case files of
        None \<Rightarrow> s
      | Some file \<Rightarrow>
          (case validate file of
             Some e \<Rightarrow> show_toast (error_toast e) s
           | None \<Rightarrow>
               (case compression of
                  Inl e \<Rightarrow> show_toast (error_toast e) s
                | Inr compressedFile \<Rightarrow>
                    setImage (Some (new_session file compressedFile imageUrl))
                      (createObjectURL imageUrl s))))"

subsection \<open>processImage and handleProcess\<close>

text \<open>
  \<open>handleProcess\<close> is an async function that awaits \<open>processImage\<close>, which awaits
  \<open>removeBackground\<close>. Other callbacks run while the promise is pending, so the model
  has one function for the part before the \<open>await\<close> and one for each way the promise
  settles. The argument \<open>timer\<close> is the id \<open>setInterval\<close> returned, which \<open>processImage\<close>
  keeps in its local variable of that name.
\<close>

definition processImage_begin :: "nat \<Rightarrow> widget \<Rightarrow> widget" where
  "processImage_begin timer s =
     s\<lparr> timeLeft := 20, progress := 0, timers := insert timer (timers s),
        timerRef := Some timer, runs := runs s @ [timer] \<rparr>"

text \<open>The interval callback: one tick of the countdown, for an interval that is set.\<close>

definition tick :: "nat \<Rightarrow> widget \<Rightarrow> widget" where
  "tick timer s =
     (if timer \<notin> timers s then s
      else if timeLeft s \<le> 1
           then (if truthy_id timer then clearInterval timer s else s)\<lparr> timeLeft := 0 \<rparr>
           else s\<lparr> timeLeft := timeLeft s - 1 \<rparr>)"

definition processImage_resolved :: "nat \<Rightarrow> widget \<Rightarrow> widget" where
  "processImage_resolved timer s =
     (if truthy_id timer then clearInterval timer s else s)\<lparr> timerRef := None \<rparr>"

definition processImage_rejected :: "nat \<Rightarrow> widget \<Rightarrow> widget" where
  "processImage_rejected timer s =
     (let s1 = (if truthy_id timer then clearInterval timer s else s);
          s2 = (case timerRef s1 of
                  None \<Rightarrow> s1
                | Some r \<Rightarrow> if truthy_id r then clearInterval r s1 else s1)
      in s2\<lparr> timerRef := None, timeLeft := 0, progress := 0 \<rparr>)"

definition handleProcess_finally :: "widget \<Rightarrow> widget" where
  "handleProcess_finally s =
     clear_timerRef (s\<lparr> isProcessing := False, timeLeft := 0, progress := 0 \<rparr>)"

text \<open>The guard \<open>!image?.original || isProcessing\<close>.\<close>

definition process_ignored :: "widget \<Rightarrow> bool" where
  "process_ignored s =
     ((case image_state s of None \<Rightarrow> True | Some img \<Rightarrow> original img = None)
      \<or> isProcessing s)"

definition handleProcess :: "nat \<Rightarrow> widget \<Rightarrow> widget" where
  "handleProcess timer s =
     (if process_ignored s then s
      else processImage_begin timer (s\<lparr> isProcessing := True, progress := 0, timeLeft := 20 \<rparr>))"

definition success_toast :: "string \<Rightarrow> toast" where
  "success_toast d = \<lparr> title = ''Success'', description = d, variant = None \<rparr>"

definition processing_failed_toast :: toast where
  "processing_failed_toast = \<lparr> title = ''Processing failed'',
     description = ''Failed to process image. Please try again.'',
     variant = Some ''destructive'' \<rparr>"

text \<open>
  The promise resolves with \<open>result\<close>; \<open>url\<close> is what \<open>URL.createObjectURL(processedBlob)\<close>
  returns. The updater given to \<open>setImage\<close> sees the image of the moment it runs.
\<close>

definition completed_updater :: "Blob \<Rightarrow> string \<Rightarrow> widget \<Rightarrow> widget" where
  "completed_updater processedBlob url s =
     (case image_state s of
        None \<Rightarrow> setImage None s
      | Some prev \<Rightarrow>
          setImage (Some (prev\<lparr> processed := Some processedBlob, processedUrl := Some url,
                                status := Completed \<rparr>))
            (case processedUrl prev of
               None \<Rightarrow> s
             | Some p \<Rightarrow> if truthy_str p then revokeObjectURL p s else s))"

definition handleProcess_resolved :: "nat \<Rightarrow> nat list \<Rightarrow> string \<Rightarrow> widget \<Rightarrow> widget" where
  "handleProcess_resolved timer result url s =
     (let s1 = processImage_resolved timer (s\<lparr> runs := remove1 timer (runs s) \<rparr>);
          processedBlob = \<lparr> blob_type = processing_format, blob_bytes = result \<rparr>;
          s2 = createObjectURL url s1;
          s3 = completed_updater processedBlob url s2;
          s4 = show_toast (success_toast ''Image processed successfully'') s3
      in handleProcess_finally s4)"

definition failed_updater :: "widget \<Rightarrow> widget" where
  "failed_updater s =
     (case image_state s of
        None \<Rightarrow> setImage None s
      | Some prev \<Rightarrow> setImage (Some (prev\<lparr> status := Failed \<rparr>)) s)"

definition handleProcess_rejected :: "nat \<Rightarrow> widget \<Rightarrow> widget" where
  "handleProcess_rejected timer s =
     (let s1 = processImage_rejected timer (s\<lparr> runs := remove1 timer (runs s) \<rparr>);
          s2 = failed_updater s1;
          s3 = show_toast processing_failed_toast s2
      in handleProcess_finally s3)"

subsection \<open>The progress callback\<close>

text \<open>
  \<open>removeBackground\<close> reports progress as a JavaScript number \<open>p\<close>, an IEEE 754 binary64
  value, and the callback stores \<open>Math.floor(p * 100)\<close>. A finite binary64 value is
  \<open>\<plusminus> m \<times> 2\<^sup>e\<close> with \<open>m < 2\<^sup>5\<^sup>3\<close> and \<open>-1074 \<le> e \<le> 971\<close>; NaN and the infinities are
  not values of the type \<open>double\<close> below.
\<close>

datatype double = Double (negative: bool) (mantissa: nat) (exponent: int)

definition valid_double :: "double \<Rightarrow> bool" where
  "valid_double d = (mantissa d < 2 ^ 53 \<and> - 1074 \<le> exponent d \<and> exponent d \<le> 971)"

definition value_of :: "double \<Rightarrow> rat" where
  "value_of d = (if negative d then - 1 else 1) * of_nat (mantissa d) * 2 powi exponent d"

text \<open>The number of binary digits of \<open>n\<close>.\<close>

fun bit_length :: "nat \<Rightarrow> nat" where
  "bit_length n = (if n = 0 then 0 else Suc (bit_length (n div 2)))"

declare bit_length.simps [simp del]

text \<open>
  \<open>round_half_even m k\<close> is \<open>m / 2\<^sup>k\<close> rounded to the nearest natural number, a tie going
  to the even one.
\<close>

definition round_half_even :: "nat \<Rightarrow> nat \<Rightarrow> nat" where
  "round_half_even m k =
     (let q = m div 2 ^ k; r = m mod 2 ^ k
      in if 2 * r > 2 ^ k \<or> (2 * r = 2 ^ k \<and> odd q) then q + 1 else q)"

text \<open>
  Rounding the exact number \<open>\<plusminus> m \<times> 2\<^sup>e\<close> to binary64, to nearest with ties to even: the
  result keeps 53 digits of \<open>m\<close>, or fewer where the exponent would fall below \<open>-1074\<close>;
  \<open>None\<close> when the rounded magnitude reaches \<open>2\<^sup>1\<^sup>0\<^sup>2\<^sup>4\<close>, where JavaScript gives an infinity
  (a mantissa of \<open>n\<close> digits and an exponent \<open>e\<close> stay below it when \<open>n + e \<le> 1024\<close>).
\<close>

definition round_double :: "bool \<Rightarrow> nat \<Rightarrow> int \<Rightarrow> double option" where
  "round_double neg m e =
     (let k = max (int (bit_length m) - 53) (- 1074 - e);
          d = (if k \<le> 0 then Double neg m e
               else Double neg (round_half_even m (nat k)) (e + k))
      in if mantissa d = 0 \<or> int (bit_length (mantissa d)) + exponent d \<le> 1024
         then Some d else None)"

text \<open>The product of two numbers: the exact product, rounded.\<close>

definition times_double :: "double \<Rightarrow> double \<Rightarrow> double option" where
  "times_double a b =
     round_double (negative a \<noteq> negative b) (mantissa a * mantissa b)
       (exponent a + exponent b)"

definition hundred :: double where
  "hundred = Double False 25 2"

text \<open>\<open>Math.floor(p * 100)\<close>, an integer unless the product is infinite.\<close>

definition progressValue :: "double \<Rightarrow> int option" where
  "progressValue p = map_option (\<lambda>d. \<lfloor>value_of d\<rfloor>) (times_double p hundred)"

text \<open>
  The cell \<open>progress\<close> of the model holds an integer; a report whose product is infinite
  is outside the model and leaves the state as it is.
\<close>

definition progress_callback :: "double \<Rightarrow> widget \<Rightarrow> widget" where
  "progress_callback p s =
     (case progressValue p of
        None \<Rightarrow> s
      | Some progressValue' \<Rightarrow> s\<lparr> progress := progressValue' \<rparr>)"

subsection \<open>handleDownload\<close>

text \<open>
  \<open>name.replace(/\.[^/.]+$/, '')\<close>: the pattern has no \<open>g\<close> flag, so the leftmost match is
  replaced. A match starts at a dot and must reach the end of the string through one or
  more characters that are neither \<open>/\<close> nor a dot; the scan tries each position from the
  left.
\<close>

fun replace_ext :: "string \<Rightarrow> string" where
  "replace_ext [] = []"
| "replace_ext (c # cs) =
     (if c = CHR ''.'' \<and> cs \<noteq> [] \<and> list_all (\<lambda>d. d \<noteq> CHR ''/'' \<and> d \<noteq> CHR ''.'') cs
      then []
      else c # replace_ext cs)"

definition download_name :: "string \<Rightarrow> string" where
  "download_name n = ''processed_'' @ replace_ext n @ ''.png''"

text \<open>
  \<open>link_href\<close> is what \<open>URL.createObjectURL(image.processed)\<close> returns. The click on the
  link saves the blob under \<open>link.download\<close>.
\<close>

definition handleDownload :: "string \<Rightarrow> widget \<Rightarrow> widget" where
  "handleDownload link_href s =
     (case image_state s of
        None \<Rightarrow> s
      | Some img \<Rightarrow>
          (case processed img of
             None \<Rightarrow> s
           | Some blob \<Rightarrow>
               if \<not> truthy_str (name img) then s
               else
                 let s1 = createObjectURL link_href s;
                     s2 = s1\<lparr> downloads := downloads s1 @ [(download_name (name img), blob)] \<rparr>
                 in revokeObjectURL link_href s2))"

subsection \<open>handleDelete\<close>

definition handleDelete :: "widget \<Rightarrow> widget" where
  "handleDelete s =
     (case image_state s of
        None \<Rightarrow> s
      | Some img \<Rightarrow>
          (let s1 = (if isProcessing s then s\<lparr> isProcessing := False \<rparr> else s);
               s2 = revoke_session img s1;
               s3 = clear_timerRef s2;
               s4 = (setImage None s3)\<lparr> isProcessing := False, progress := 0, timeLeft := 0,
                                         isDragging := False \<rparr>;
               s5 = set_ref_value [] s4
           in show_toast (success_toast ''Image deleted successfully'') s5))"

subsection \<open>Drag and drop\<close>

definition handleDragOver :: "widget \<Rightarrow> widget" where
  "handleDragOver s = s\<lparr> isDragging := True \<rparr>"

definition handleDragLeave :: "widget \<Rightarrow> widget" where
  "handleDragLeave s = s\<lparr> isDragging := False \<rparr>"

text \<open>
  \<open>handleDrop\<close> passes the drag event to \<open>handleFileChange\<close>, which reads
  \<open>event.target.files\<close>; the target of a drop is the element dropped on, which has no
  \<open>files\<close>, so \<open>file\<close> is undefined there.
\<close>

definition handleDrop :: "widget \<Rightarrow> widget" where
  "handleDrop s = handleFileChange None (Inl NonError) [] (s\<lparr> isDragging := False \<rparr>)"

subsection \<open>The buttons \<open>Choose Image\<close>\<close>

text \<open>
  \<open>onClick={() => fileInputRef.current?.click()}\<close> opens the file picker of the input
  the ref points to; when the user picks a file the browser stores its path, \<open>value\<close>, in
  that input, and then fires the change event that \<open>handleFileChange\<close> handles.
\<close>

definition choose_image :: "string \<Rightarrow> widget \<Rightarrow> widget" where
  "choose_image v s = set_ref_value v s"

subsection \<open>Rendering\<close>

text \<open>The conditions of the JSX under which each input is rendered.\<close>

definition original_input_rendered :: "widget \<Rightarrow> bool" where
  "original_input_rendered s =
     (case image_state s of None \<Rightarrow> True | Some img \<Rightarrow> \<not> truthy_str (originalUrl img))"

definition upload_input_rendered :: "widget \<Rightarrow> bool" where
  "upload_input_rendered s =
     (case image_state s of None \<Rightarrow> True | Some img \<Rightarrow> original img = None)"

text \<open>
  What React does to the inputs and the ref when it commits a render: an input that is
  no longer rendered leaves the document, and React sets the ref of a removed element to
  null; an input that is rendered and was not there is a new, empty element and the ref
  is set to it, after the removals, the upload input after the original one; an input
  that stays keeps its value and does not touch the ref.
\<close>

definition render :: "widget \<Rightarrow> widget" where
  "render s =
     (let mount1 = (original_input_rendered s \<and> originalInput s = None);
          mount2 = (upload_input_rendered s \<and> uploadInput s = None);
          unmount1 = (\<not> original_input_rendered s \<and> originalInput s \<noteq> None);
          unmount2 = (\<not> upload_input_rendered s \<and> uploadInput s \<noteq> None)
      in s\<lparr> originalInput := (if mount1 then Some [] else if unmount1 then None
                                else originalInput s),
            uploadInput := (if mount2 then Some [] else if unmount2 then None
                              else uploadInput s),
            fileInputRef := (if mount2 then Some UploadInput
                               else if mount1 then Some OriginalInput
                               else if unmount1 \<or> unmount2 then None
                               else fileInputRef s) \<rparr>)"

section \<open>Events and reachable states\<close>

text \<open>
  The widget runs on the event loop: one callback at a time, each followed by the commit
  of the state it wrote: the render is committed, then the effects run. An event is a
  user action, a tick of an interval that is set, a progress report or the settling of
  a pending promise.
\<close>

datatype event =
    FileChange "File option" "thrown + File" string
  | ProcessClick nat
  | Tick nat
  | ProgressReport double
  | RunResolved nat "nat list" string
  | RunRejected nat
  | DownloadClick string
  | DeleteClick
  | ChooseImage string
  | DragOver
  | DragLeave
  | Drop

fun callback :: "event \<Rightarrow> widget \<Rightarrow> widget" where
  "callback (FileChange files compression imageUrl) s =
     handleFileChange files compression imageUrl s"
| "callback (ProcessClick timer) s = handleProcess timer s"
| "callback (Tick timer) s = tick timer s"
| "callback (ProgressReport p) s = (if runs s = [] then s else progress_callback p s)"
| "callback (RunResolved timer result url) s =
     (if timer \<in> set (runs s) then handleProcess_resolved timer result url s else s)"
| "callback (RunRejected timer) s =
     (if timer \<in> set (runs s) then handleProcess_rejected timer s else s)"
| "callback (DownloadClick link_href) s = handleDownload link_href s"
| "callback DeleteClick s = handleDelete s"
| "callback (ChooseImage v) s = choose_image v s"
| "callback DragOver s = handleDragOver s"
| "callback DragLeave s = handleDragLeave s"
| "callback Drop s = handleDrop s"

definition step :: "event \<Rightarrow> widget \<Rightarrow> widget" where
  "step e s = flushEffects (render (callback e s))"

fun exec :: "event list \<Rightarrow> widget \<Rightarrow> widget" where
  "exec [] s = s"
| "exec (e # es) s = exec es (step e s)"

inductive reachable :: "widget \<Rightarrow> bool" where
  reachable_initial: "reachable initial"
| reachable_step: "reachable s \<Longrightarrow> reachable (step e s)"

section \<open>Vocabulary of the specification\<close>

text \<open>
  The revocable references of a session: its object URLs, as far as the callbacks
  release them (they skip an empty string, which no object URL is).
\<close>

definition session_refs :: "ProcessedImage \<Rightarrow> string set" where
  "session_refs img =
     set (filter truthy_str
            (originalUrl img # (case processedUrl img of None \<Rightarrow> [] | Some p \<Rightarrow> [p])))"

text \<open>
  The invariant of the session that the callbacks keep: a completed session has a
  processed URL, a pending one has none, no callback stores the status
  \<open>processing\<close>, the processed blob and its URL are there together, and the
  original file is there.
\<close>

definition session_ok :: "ProcessedImage \<Rightarrow> bool" where
  "session_ok img =
     ((status img = Completed \<longrightarrow> processedUrl img \<noteq> None) \<and>
      (status img = Pending \<longrightarrow> processedUrl img = None) \<and>
      status img \<noteq> Processing \<and>
      (processed img = None \<longleftrightarrow> processedUrl img = None) \<and>
      original img \<noteq> None)"

text \<open>
  The filename of the download in the words of the specification: the final extension
  is the part after the last dot, the stem is what stands before that dot, and a name
  without a dot is its own stem.
\<close>

definition spec_ext :: "string \<Rightarrow> string" where
  "spec_ext n = rev (takeWhile (\<lambda>c. c \<noteq> CHR ''.'') (rev n))"

definition spec_stem :: "string \<Rightarrow> string" where
  "spec_stem n =
     (if CHR ''.'' \<in> set n then rev (tl (dropWhile (\<lambda>c. c \<noteq> CHR ''.'') (rev n))) else n)"

definition spec_download_name :: "string \<Rightarrow> string" where
  "spec_download_name n = ''processed_'' @ spec_stem n @ ''.png''"

text \<open>The interval that \<open>timerRef\<close> holds, if it holds one.\<close>

definition held_timer :: "widget \<Rightarrow> nat set" where
  "held_timer s =
     (case timerRef s of None \<Rightarrow> {} | Some t \<Rightarrow> if truthy_id t then {t} else {})"

text \<open>The inputs in the document are those that the render of the state shows.\<close>

definition inputs_ok :: "widget \<Rightarrow> bool" where
  "inputs_ok s =
     ((originalInput s \<noteq> None) = original_input_rendered s \<and>
      (uploadInput s \<noteq> None) = upload_input_rendered s)"

text \<open>What \<open>timerRef\<close> holds after \<open>if (timerRef.current) { ...; timerRef.current = null }\<close>.\<close>

definition timerRef_cleared :: "widget \<Rightarrow> nat option" where
  "timerRef_cleared s =
     (case timerRef s of None \<Rightarrow> None | Some t \<Rightarrow> if truthy_id t then None else Some t)"

text \<open>The ref points to an input that is in the document.\<close>

definition ref_ok :: "widget \<Rightarrow> bool" where
  "ref_ok s =
     (case fileInputRef s of
        None \<Rightarrow> True
      | Some OriginalInput \<Rightarrow> originalInput s \<noteq> None
      | Some UploadInput \<Rightarrow> uploadInput s \<noteq> None)"

text \<open>
  For the proofs about the progress callback: \<open>rne t\<close> is the integer nearest to \<open>t\<close>, a
  tie going to the even one; \<open>on_grid g x\<close> is the multiple of \<open>2\<^sup>g\<close> nearest to \<open>x\<close>;
  \<open>binade_of p\<close> is the exponent \<open>b\<close> with \<open>2\<^sup>b\<^sup>-\<^sup>1 \<le> 100 p < 2\<^sup>b\<close> for a positive \<open>p\<close>, and
  \<open>rounded100 p\<close> is the exact product \<open>100 p\<close> put on the grid of the 53 digits below
  that exponent.
\<close>

definition rne :: "rat \<Rightarrow> int" where
  "rne t = (let f = \<lfloor>t\<rfloor>; r = t - of_int f
            in if r > 1 / 2 \<or> (r = 1 / 2 \<and> odd f) then f + 1 else f)"

definition on_grid :: "int \<Rightarrow> rat \<Rightarrow> rat" where
  "on_grid g x = 2 powi g * of_int (rne (x / 2 powi g))"

definition rounded100 :: "double \<Rightarrow> rat" where
  "rounded100 p =
     (if mantissa p = 0 then 0
      else on_grid (int (bit_length (mantissa p * 25)) + (exponent p + 2) - 53)
             (100 * value_of p))"

definition binade_of :: "double \<Rightarrow> int" where
  "binade_of p = int (bit_length (mantissa p * 25)) + (exponent p + 2)"

section \<open>Example inputs\<close>

definition photo :: File where
  "photo = \<lparr> file_name = ''cat.jpg'', file_type = ''image/jpeg'', file_size = 2097152,
     file_bytes = [255, 216, 255] \<rparr>"

definition photo_compressed :: File where
  "photo_compressed = \<lparr> file_name = ''cat.jpg'', file_type = ''image/jpeg'', file_size = 2,
     file_bytes = [255, 216] \<rparr>"

definition pending_session :: ProcessedImage where
  "pending_session =
     \<lparr> original = Some photo_compressed, originalUrl = ''blob:1'', processed = None,
       processedUrl = None, name = ''cat.jpg'', status = Pending \<rparr>"

definition completed_session :: ProcessedImage where
  "completed_session =
     \<lparr> original = Some photo_compressed, originalUrl = ''blob:1'',
       processed = Some \<lparr> blob_type = ''image/png'', blob_bytes = [137, 80] \<rparr>,
       processedUrl = Some ''blob:2'', name = ''cat.jpg'', status = Completed \<rparr>"

text \<open>The user picks the picture with the button \<open>Choose Image\<close>.\<close>

definition picked :: widget where
  "picked = exec [ChooseImage ''fakepath/cat.jpg''] initial"

text \<open>The picture is uploaded.\<close>

definition uploaded :: widget where
  "uploaded = exec [FileChange (Some photo) (Inr photo_compressed) ''blob:1''] picked"

text \<open>It is processed, and the run succeeds.\<close>

definition processed_once :: widget where
  "processed_once = exec [ProcessClick 1, RunResolved 1 [137, 80] ''blob:2''] uploaded"

text \<open>It is processed again, the run is pending; then the run fails.\<close>

definition retry_pending :: widget where
  "retry_pending = exec [ProcessClick 2] processed_once"

definition retry_failed :: widget where
  "retry_failed = exec [RunRejected 2] retry_pending"

text \<open>Candidate files for the validation.\<close>

definition exact_10MiB :: File where
  "exact_10MiB = \<lparr> file_name = ''poster.png'', file_type = ''image/png'',
     file_size = 10485760, file_bytes = [137, 80, 78, 71] \<rparr>"

definition oversized :: File where
  "oversized = \<lparr> file_name = ''poster.png'', file_type = ''image/png'',
     file_size = 10485761, file_bytes = [137, 80, 78, 71] \<rparr>"

definition text_file :: File where
  "text_file = \<lparr> file_name = ''notes.txt'', file_type = ''text/plain'',
     file_size = 5, file_bytes = [104, 101, 108, 108, 111] \<rparr>"

definition huge_pdf :: File where
  "huge_pdf = \<lparr> file_name = ''scan.pdf'', file_type = ''application/pdf'',
     file_size = 20971520, file_bytes = [37, 80, 68, 70] \<rparr>"

text \<open>
  The picture is uploaded and a run is started; the picture is deleted while the run is
  pending; it is uploaded again and a run is started.
\<close>

definition two_runs :: widget where
  "two_runs = exec [ProcessClick 1, DeleteClick,
                    FileChange (Some photo) (Inr photo_compressed) ''blob:3'',
                    ProcessClick 2] uploaded"

text \<open>A picture whose name ends in a dot is uploaded and processed.\<close>

definition dotted_photo :: File where
  "dotted_photo = \<lparr> file_name = ''holiday.'', file_type = ''image/jpeg'', file_size = 2097152,
     file_bytes = [255, 216, 255] \<rparr>"

definition dotted_done :: widget where
  "dotted_done = exec [FileChange (Some dotted_photo) (Inr photo_compressed) ''blob:1'',
                       ProcessClick 1, RunResolved 1 [137, 80] ''blob:2''] initial"

text \<open>The uploaded picture is being processed for the first time.\<close>

definition first_run_pending :: widget where
  "first_run_pending = exec [ProcessClick 1] uploaded"

text \<open>
  The picture is deleted during the run and uploaded again, a second run starts, and
  then the first run resolves: it sets \<open>timerRef\<close> to null while the interval of the second
  run is set.
\<close>

definition stale_timer :: widget where
  "stale_timer = exec [DeleteClick, FileChange (Some photo) (Inr photo_compressed) ''blob:3'',
                       ProcessClick 2, RunResolved 1 [137, 80] ''blob:4''] first_run_pending"

text \<open>
  The picture is deleted during the run, the run resolves with no session to take its
  result, and the picture is uploaded again.
\<close>

definition leaked :: widget where
  "leaked = exec [DeleteClick, RunResolved 1 [137, 80] ''blob:2'',
                  FileChange (Some photo) (Inr photo_compressed) ''blob:3''] first_run_pending"

text \<open>
  Two progress values: the binary64 number nearest to 0.35, which is a little less than
  0.35, and one half.
\<close>

definition p035 :: double where
  "p035 = Double False 6305039478318694 (- 54)"

definition p050 :: double where
  "p050 = Double False 1 (- 1)"

section \<open>Basic facts\<close>

lemmas model_defs =
  initial_def createObjectURL_def revokeObjectURL_def clearInterval_def show_toast_def
  setImage_def truthy_str_def truthy_id_def revoke_session_def clear_timerRef_def cleanup_def
  flushEffects_def validate_def error_toast_def new_session_def handleFileChange_def
  processImage_begin_def tick_def processImage_resolved_def processImage_rejected_def
  handleProcess_finally_def process_ignored_def handleProcess_def success_toast_def
  processing_failed_toast_def completed_updater_def handleProcess_resolved_def
  failed_updater_def handleProcess_rejected_def download_name_def handleDownload_def
  handleDelete_def handleDragOver_def handleDragLeave_def handleDrop_def step_def
  set_ref_value_def choose_image_def original_input_rendered_def upload_input_rendered_def
  render_def
  maxSize_def upload_types_def processing_format_def InvalidType_def TooLarge_def
  invalid_type_msg_def too_large_msg_def Let_def

subsection \<open>What each callback does to the session\<close>

lemma image_state_revoke_session [simp]: "image_state (revoke_session img s) = image_state s"
  by (simp add: revoke_session_def revokeObjectURL_def Let_def split: option.splits)

lemma image_state_clear_timerRef [simp]: "image_state (clear_timerRef s) = image_state s"
  by (simp add: clear_timerRef_def clearInterval_def split: option.splits)

lemma image_state_cleanup [simp]: "image_state (cleanup c s) = image_state s"
  by (simp add: cleanup_def Let_def split: option.splits)

lemma image_state_flushEffects [simp]: "image_state (flushEffects s) = image_state s"
  by (simp add: flushEffects_def split: option.splits)

lemma image_state_set_ref_value [simp]: "image_state (set_ref_value v s) = image_state s"
  by (simp add: set_ref_value_def split: option.splits input_id.splits)

lemma render_fields [simp]:
  "image_state (render s) = image_state s"
  "pendingCleanup (render s) = pendingCleanup s"
  "toasts (render s) = toasts s"
  "runs (render s) = runs s"
  "liveUrls (render s) = liveUrls s"
  "timers (render s) = timers s"
  "timerRef (render s) = timerRef s"
  "progress (render s) = progress s"
  "timeLeft (render s) = timeLeft s"
  "isProcessing (render s) = isProcessing s"
  by (simp_all add: render_def Let_def)

lemma image_state_setImage [simp]: "image_state (setImage v s) = v"
  by (simp add: setImage_def)

lemma image_state_handleFileChange:
  "image_state (handleFileChange files c u s) = image_state s \<or>
   (\<exists>f cf. image_state (handleFileChange files c u s) = Some (new_session f cf u))"
  by (auto simp add: handleFileChange_def show_toast_def createObjectURL_def
      split: option.splits sum.splits)

lemma image_state_handleProcess [simp]: "image_state (handleProcess t s) = image_state s"
  by (simp add: handleProcess_def processImage_begin_def)

lemma image_state_tick [simp]: "image_state (tick t s) = image_state s"
  by (simp add: tick_def clearInterval_def)

lemma image_state_progress_callback [simp]:
  "image_state (progress_callback p s) = image_state s"
  by (simp add: progress_callback_def split: option.splits)

lemma image_state_handleProcess_finally [simp]:
  "image_state (handleProcess_finally s) = image_state s"
  by (simp add: handleProcess_finally_def)

lemma image_state_handleProcess_resolved:
  "image_state (handleProcess_resolved t r u s) =
     map_option (\<lambda>prev. prev\<lparr> processed := Some \<lparr> blob_type = processing_format, blob_bytes = r \<rparr>,
        processedUrl := Some u, status := Completed \<rparr>) (image_state s)"
  by (simp add: handleProcess_resolved_def Let_def show_toast_def completed_updater_def
      createObjectURL_def processImage_resolved_def clearInterval_def split: option.splits)

lemma image_state_handleProcess_rejected:
  "image_state (handleProcess_rejected t s) =
     map_option (\<lambda>prev. prev\<lparr> status := Failed \<rparr>) (image_state s)"
  by (simp add: handleProcess_rejected_def Let_def show_toast_def failed_updater_def
      processImage_rejected_def clearInterval_def split: option.splits)

lemma image_state_handleDownload [simp]: "image_state (handleDownload u s) = image_state s"
  by (simp add: handleDownload_def Let_def createObjectURL_def revokeObjectURL_def
      split: option.splits)

lemma image_state_handleDelete [simp]: "image_state (handleDelete s) = None"
  by (simp add: handleDelete_def Let_def show_toast_def split: option.splits)

lemma image_state_choose_image [simp]: "image_state (choose_image v s) = image_state s"
  by (simp add: choose_image_def)

lemma image_state_handleDrop [simp]: "image_state (handleDrop s) = image_state s"
  by (simp add: handleDrop_def handleFileChange_def)

subsection \<open>The invariant of the session\<close>

lemma session_ok_new [simp]: "session_ok (new_session f c u)"
  by (simp add: session_ok_def new_session_def)

lemma session_ok_step:
  assumes "\<forall>img. image_state s = Some img \<longrightarrow> session_ok img"
    and "image_state (step e s) = Some img'"
  shows "session_ok img'"
proof (cases e)
  case (FileChange files c u)
  with assms image_state_handleFileChange [of files c u s] show ?thesis
    by (auto simp: step_def)
next
  case (RunResolved t r u)
  with assms show ?thesis
    by (auto simp: step_def image_state_handleProcess_resolved session_ok_def split: if_splits)
next
  case (RunRejected t)
  with assms show ?thesis
    by (auto simp: step_def image_state_handleProcess_rejected session_ok_def split: if_splits)
qed (use assms in \<open>auto simp: step_def handleDragOver_def handleDragLeave_def split: if_splits\<close>)

lemma reachable_session_ok:
  "reachable s \<Longrightarrow> image_state s = Some img \<Longrightarrow> session_ok img"
proof (induction arbitrary: img rule: reachable.induct)
  case reachable_initial
  then show ?case by (simp add: initial_def)
next
  case (reachable_step s e)
  then show ?case using session_ok_step [of s e img] by blast
qed

lemma reachable_exec: "reachable s \<Longrightarrow> reachable (exec es s)"
  by (induction es arbitrary: s) (auto intro: reachable_step)

lemma reachable_exec_initial: "reachable (exec es initial)"
  by (rule reachable_exec) (rule reachable_initial)

subsection \<open>Commits\<close>

lemma flushEffects_committed: "pendingCleanup s = None \<Longrightarrow> flushEffects s = s"
  by (simp add: flushEffects_def)

lemma pendingCleanup_flushEffects [simp]: "pendingCleanup (flushEffects s) = None"
  by (simp add: flushEffects_def split: option.splits)

lemma reachable_committed: "reachable s \<Longrightarrow> pendingCleanup s = None"
  by (induction rule: reachable.induct) (simp_all add: initial_def step_def)

lemma rendered_render [simp]:
  "original_input_rendered (render s) = original_input_rendered s"
  "upload_input_rendered (render s) = upload_input_rendered s"
  by (simp_all add: original_input_rendered_def upload_input_rendered_def)

lemma inputs_ok_cong:
  assumes "image_state t = image_state s" and "originalInput t = originalInput s"
    and "uploadInput t = uploadInput s"
  shows "inputs_ok t = inputs_ok s"
  using assms
  by (simp add: inputs_ok_def original_input_rendered_def upload_input_rendered_def)

lemma render_id:
  assumes "inputs_ok s"
  shows "render s = s"
proof -
  from assms have a: "(originalInput s = None) = (\<not> original_input_rendered s)"
    "(uploadInput s = None) = (\<not> upload_input_rendered s)"
    by (auto simp: inputs_ok_def)
  show ?thesis
    by (cases "original_input_rendered s"; cases "upload_input_rendered s")
       (simp_all add: render_def Let_def a)
qed

lemma inputs_render:
  "originalInput (render s) =
     (if original_input_rendered s
      then (case originalInput s of None \<Rightarrow> Some [] | Some v \<Rightarrow> Some v) else None)"
  "uploadInput (render s) =
     (if upload_input_rendered s
      then (case uploadInput s of None \<Rightarrow> Some [] | Some v \<Rightarrow> Some v) else None)"
  by (simp_all add: render_def Let_def split: option.splits)

lemma inputs_ok_render: "inputs_ok (render s)"
  unfolding inputs_ok_def rendered_render inputs_render
  by (simp split: option.splits)

lemma inputs_cleanup:
  "originalInput (cleanup c s) = originalInput s"
  "uploadInput (cleanup c s) = uploadInput s"
  "fileInputRef (cleanup c s) = fileInputRef s"
  by (simp_all add: cleanup_def revoke_session_def clear_timerRef_def revokeObjectURL_def
      clearInterval_def Let_def split: option.splits)

lemma inputs_flushEffects:
  "originalInput (flushEffects s) = originalInput s"
  "uploadInput (flushEffects s) = uploadInput s"
  "fileInputRef (flushEffects s) = fileInputRef s"
  by (simp_all add: flushEffects_def inputs_cleanup split: option.splits)

lemma inputs_ok_step: "inputs_ok (step e s)"
proof -
  have "inputs_ok (flushEffects (render (callback e s))) = inputs_ok (render (callback e s))"
    by (rule inputs_ok_cong) (simp_all add: inputs_flushEffects)
  then show ?thesis
    by (simp add: step_def inputs_ok_render)
qed

lemma reachable_inputs_ok: "reachable s \<Longrightarrow> inputs_ok s"
  by (induction rule: reachable.induct)
     (simp_all add: inputs_ok_step,
      simp add: initial_def inputs_ok_def original_input_rendered_def
        upload_input_rendered_def)

text \<open>
  In a reachable state, a callback that leaves the image and the inputs as they are is
  followed by a commit that changes nothing.
\<close>

lemma step_unchanged:
  assumes "reachable s" and "image_state (callback e s) = image_state s"
    and "originalInput (callback e s) = originalInput s"
    and "uploadInput (callback e s) = uploadInput s"
    and "pendingCleanup (callback e s) = None"
  shows "step e s = callback e s"
proof -
  have "inputs_ok (callback e s) = inputs_ok s"
    using assms(2-4) by (rule inputs_ok_cong)
  then have "render (callback e s) = callback e s"
    using reachable_inputs_ok [OF assms(1)] by (simp add: render_id)
  then show ?thesis
    using assms(5) by (simp add: step_def flushEffects_committed)
qed

lemma InvalidType_neq_TooLarge: "InvalidType \<noteq> TooLarge"
  by (simp add: InvalidType_def TooLarge_def invalid_type_msg_def too_large_msg_def)

subsection \<open>What the cleanup leaves and what it resets\<close>

lemma toasts_cleanup: "toasts (cleanup c s) = toasts s"
  by (simp add: cleanup_def revoke_session_def clear_timerRef_def revokeObjectURL_def
      clearInterval_def Let_def split: option.splits)

lemma runs_cleanup: "runs (cleanup c s) = runs s"
  by (simp add: cleanup_def revoke_session_def clear_timerRef_def revokeObjectURL_def
      clearInterval_def Let_def split: option.splits)

lemma toasts_flushEffects: "toasts (flushEffects s) = toasts s"
  by (simp add: flushEffects_def toasts_cleanup split: option.splits)

lemma runs_flushEffects: "runs (flushEffects s) = runs s"
  by (simp add: flushEffects_def runs_cleanup split: option.splits)

lemma cleanup_cells:
  "progress (cleanup c s) = 0" "timeLeft (cleanup c s) = 0" "isProcessing (cleanup c s) = False"
  by (simp_all add: cleanup_def Let_def)

lemma liveUrls_revoke_session:
  "liveUrls (revoke_session img s) = liveUrls s - session_refs img"
  by (auto simp: revoke_session_def session_refs_def revokeObjectURL_def Let_def
      split: option.splits)

lemma revoke_session_eq:
  "revoke_session img s = s\<lparr> liveUrls := liveUrls s - session_refs img \<rparr>"
proof -
  have "liveUrls (revoke_session img s) = liveUrls s - session_refs img"
    by (rule liveUrls_revoke_session)
  moreover have "revoke_session img s = s\<lparr> liveUrls := liveUrls (revoke_session img s) \<rparr>"
    by (simp add: revoke_session_def revokeObjectURL_def Let_def split: option.splits)
  ultimately show ?thesis by simp
qed

lemma liveUrls_clear_timerRef: "liveUrls (clear_timerRef s) = liveUrls s"
  by (simp add: clear_timerRef_def clearInterval_def split: option.splits)

lemma liveUrls_cleanup:
  "liveUrls (cleanup c s) = liveUrls s - (case c of None \<Rightarrow> {} | Some img \<Rightarrow> session_refs img)"
  by (simp add: cleanup_def Let_def liveUrls_revoke_session liveUrls_clear_timerRef
      split: option.splits)

subsection \<open>The example states\<close>

lemma picked_eq:
  "picked = initial\<lparr> uploadInput := Some ''fakepath/cat.jpg'' \<rparr>"
  by (simp add: picked_def model_defs)

lemma reachable_picked: "reachable picked"
  unfolding picked_def by (rule reachable_exec_initial)

lemma uploaded_eq:
  "uploaded =
     \<lparr> image_state = Some pending_session,
       isProcessing = False, progress = 0, isDragging = False, timeLeft = 0,
       timerRef = None, originalInput = None, uploadInput = None,
       fileInputRef = None, liveUrls = {''blob:1''}, timers = {},
       runs = [], toasts = [], downloads = [], pendingCleanup = None \<rparr>"
  by (simp add: uploaded_def picked_eq pending_session_def model_defs photo_def
      photo_compressed_def)

lemma processed_once_eq:
  "processed_once =
     \<lparr> image_state = Some completed_session,
       isProcessing = False, progress = 0, isDragging = False, timeLeft = 0,
       timerRef = None, originalInput = None, uploadInput = None,
       fileInputRef = None, liveUrls = {''blob:2''}, timers = {},
       runs = [], toasts = [success_toast ''Image processed successfully''],
       downloads = [], pendingCleanup = None \<rparr>"
  by (simp add: processed_once_def uploaded_eq pending_session_def completed_session_def
      model_defs insert_Diff_if)

lemma retry_pending_eq:
  "retry_pending =
     \<lparr> image_state = Some completed_session,
       isProcessing = True, progress = 0, isDragging = False, timeLeft = 20,
       timerRef = Some 2, originalInput = None, uploadInput = None,
       fileInputRef = None, liveUrls = {''blob:2''}, timers = {2},
       runs = [2], toasts = [success_toast ''Image processed successfully''],
       downloads = [], pendingCleanup = None \<rparr>"
  by (simp add: retry_pending_def processed_once_eq completed_session_def model_defs)

lemma retry_failed_eq:
  "retry_failed =
     \<lparr> image_state = Some (completed_session\<lparr> status := Failed \<rparr>),
       isProcessing = False, progress = 0, isDragging = False, timeLeft = 0,
       timerRef = None, originalInput = None, uploadInput = None,
       fileInputRef = None, liveUrls = {}, timers = {}, runs = [],
       toasts = [success_toast ''Image processed successfully'', processing_failed_toast],
       downloads = [], pendingCleanup = None \<rparr>"
  by (simp add: retry_failed_def retry_pending_eq completed_session_def model_defs
      insert_Diff_if)

lemma reachable_uploaded: "reachable uploaded"
  unfolding uploaded_def by (rule reachable_exec) (rule reachable_picked)

lemma reachable_processed_once: "reachable processed_once"
  unfolding processed_once_def by (rule reachable_exec) (rule reachable_uploaded)

lemma reachable_retry_pending: "reachable retry_pending"
  unfolding retry_pending_def by (rule reachable_exec) (rule reachable_processed_once)

lemma reachable_retry_failed: "reachable retry_failed"
  unfolding retry_failed_def by (rule reachable_exec) (rule reachable_retry_pending)

lemma two_runs_eq:
  "two_runs =
     \<lparr> image_state = Some (pending_session\<lparr> originalUrl := ''blob:3'' \<rparr>),
       isProcessing = True, progress = 0, isDragging = False, timeLeft = 20,
       timerRef = Some 2, originalInput = None, uploadInput = None,
       fileInputRef = None, liveUrls = {''blob:3''}, timers = {2},
       runs = [1, 2], toasts = [success_toast ''Image deleted successfully''],
       downloads = [], pendingCleanup = None \<rparr>"
  by (simp add: two_runs_def uploaded_eq pending_session_def model_defs photo_def
      photo_compressed_def insert_Diff_if)

lemma reachable_two_runs: "reachable two_runs"
  unfolding two_runs_def by (rule reachable_exec) (rule reachable_uploaded)

lemma first_run_pending_eq:
  "first_run_pending =
     \<lparr> image_state = Some pending_session,
       isProcessing = True, progress = 0, isDragging = False, timeLeft = 20,
       timerRef = Some 1, originalInput = None, uploadInput = None,
       fileInputRef = None, liveUrls = {''blob:1''}, timers = {1},
       runs = [1], toasts = [], downloads = [], pendingCleanup = None \<rparr>"
  by (simp add: first_run_pending_def uploaded_eq pending_session_def model_defs)

lemma reachable_first_run_pending: "reachable first_run_pending"
  unfolding first_run_pending_def by (rule reachable_exec) (rule reachable_uploaded)

lemma stale_timer_eq:
  "stale_timer =
     \<lparr> image_state = Some (completed_session\<lparr> originalUrl := ''blob:3'',
                                               processedUrl := Some ''blob:4'' \<rparr>),
       isProcessing = False, progress = 0, isDragging = False, timeLeft = 0,
       timerRef = None, originalInput = None, uploadInput = None,
       fileInputRef = None, liveUrls = {''blob:4''}, timers = {2},
       runs = [2], toasts = [success_toast ''Image deleted successfully'',
                             success_toast ''Image processed successfully''],
       downloads = [], pendingCleanup = None \<rparr>"
  by (simp add: stale_timer_def first_run_pending_eq pending_session_def completed_session_def
      model_defs photo_def photo_compressed_def insert_Diff_if)

lemma reachable_stale_timer: "reachable stale_timer"
  unfolding stale_timer_def by (rule reachable_exec) (rule reachable_first_run_pending)

lemma leaked_eq:
  "leaked =
     \<lparr> image_state = Some (pending_session\<lparr> originalUrl := ''blob:3'' \<rparr>),
       isProcessing = False, progress = 0, isDragging = False, timeLeft = 0,
       timerRef = None, originalInput = None, uploadInput = None,
       fileInputRef = None, liveUrls = {''blob:3'', ''blob:2''}, timers = {},
       runs = [], toasts = [success_toast ''Image deleted successfully'',
                            success_toast ''Image processed successfully''],
       downloads = [], pendingCleanup = None \<rparr>"
  by (simp add: leaked_def first_run_pending_eq pending_session_def
      model_defs photo_def photo_compressed_def insert_Diff_if)

lemma reachable_leaked: "reachable leaked"
  unfolding leaked_def by (rule reachable_exec) (rule reachable_first_run_pending)


subsection \<open>Delete, callback and commit\<close>

lemma clear_timerRef_eq:
  "clear_timerRef s = s\<lparr> timerRef := timerRef_cleared s, timers := timers s - held_timer s \<rparr>"
  by (cases "timerRef s")
     (simp_all add: clear_timerRef_def clearInterval_def held_timer_def timerRef_cleared_def)

lemma held_timer_cleared: "timerRef x = timerRef_cleared s \<Longrightarrow> held_timer x = {}"
  by (cases "timerRef s") (simp_all add: held_timer_def timerRef_cleared_def)

lemma timerRef_cleared_idem: "timerRef x = timerRef_cleared s \<Longrightarrow> timerRef_cleared x = timerRef x"
  by (cases "timerRef s") (simp_all add: timerRef_cleared_def)

lemma set_ref_value_fields:
  "liveUrls (set_ref_value v s) = liveUrls s"
  "timers (set_ref_value v s) = timers s"
  "timerRef (set_ref_value v s) = timerRef s"
  "toasts (set_ref_value v s) = toasts s"
  "isProcessing (set_ref_value v s) = isProcessing s"
  "progress (set_ref_value v s) = progress s"
  "timeLeft (set_ref_value v s) = timeLeft s"
  "isDragging (set_ref_value v s) = isDragging s"
  "pendingCleanup (set_ref_value v s) = pendingCleanup s"
  "fileInputRef (set_ref_value v s) = fileInputRef s"
  "(uploadInput (set_ref_value v s) = None) = (uploadInput s = None)"
  "(originalInput (set_ref_value v s) = None) = (originalInput s = None)"
  by (simp_all add: set_ref_value_def split: option.splits input_id.splits)

lemma handleDelete_None: "image_state s = None \<Longrightarrow> handleDelete s = s"
  by (simp add: handleDelete_def)

lemma handleDelete_Some:
  assumes "image_state s = Some img"
  shows "handleDelete s =
     show_toast (success_toast ''Image deleted successfully'')
       (set_ref_value []
          ((setImage None (clear_timerRef (revoke_session img (s\<lparr> isProcessing := False \<rparr>))))
             \<lparr> isProcessing := False, progress := 0, timeLeft := 0, isDragging := False \<rparr>))"
proof (cases "isProcessing s")
  case True
  with assms show ?thesis by (simp add: handleDelete_def Let_def)
next
  case False
  then have e: "s\<lparr> isProcessing := False \<rparr> = s"
    by (cases s) simp
  show ?thesis
    unfolding e using assms False by (simp add: handleDelete_def Let_def)
qed

lemma handleDelete_fields:
  assumes "image_state s = Some img"
  shows "isProcessing (handleDelete s) = False"
    and "progress (handleDelete s) = 0"
    and "timeLeft (handleDelete s) = 0"
    and "isDragging (handleDelete s) = False"
    and "toasts (handleDelete s) = toasts s @ [success_toast ''Image deleted successfully'']"
    and "liveUrls (handleDelete s) = liveUrls s - session_refs img"
    and "timers (handleDelete s) = timers s - held_timer s"
    and "timerRef (handleDelete s) = timerRef_cleared s"
    and "pendingCleanup s = None \<Longrightarrow> pendingCleanup (handleDelete s) = Some (Some img)"
    and "(uploadInput (handleDelete s) = None) = (uploadInput s = None)"
    and "(originalInput (handleDelete s) = None) = (originalInput s = None)"
  using assms
  by (simp_all add: handleDelete_Some [OF assms] show_toast_def set_ref_value_fields
      setImage_def clear_timerRef_eq revoke_session_eq held_timer_def timerRef_cleared_def)

lemma cleanup_timers:
  "timers (cleanup c s) = timers s - held_timer s"
  "timerRef (cleanup c s) = timerRef_cleared s"
  by (cases c; simp add: cleanup_def Let_def clear_timerRef_eq revoke_session_eq
      held_timer_def timerRef_cleared_def)+

lemma isDragging_flushEffects: "isDragging (flushEffects s) = isDragging s"
  by (simp add: flushEffects_def cleanup_def Let_def clear_timerRef_eq revoke_session_eq
      split: option.splits)

lemma isDragging_render: "isDragging (render s) = isDragging s"
  by (simp add: render_def Let_def)

lemma render_mounts_upload:
  assumes "image_state s = None" and "uploadInput s = None"
  shows "uploadInput (render s) = Some []" and "fileInputRef (render s) = Some UploadInput"
  using assms by (simp_all add: render_def Let_def upload_input_rendered_def)

lemma render_mounts_original:
  assumes "image_state s = None" and "originalInput s = None"
  shows "originalInput (render s) = Some []"
  using assms by (simp add: render_def Let_def original_input_rendered_def)

lemma callback_keeps_inputs:
  "fileInputRef (callback e s) = fileInputRef s \<and>
   (originalInput (callback e s) = None) = (originalInput s = None) \<and>
   (uploadInput (callback e s) = None) = (uploadInput s = None)"
proof (cases e)
  case DeleteClick
  show ?thesis
  proof (cases "image_state s")
    case None
    then show ?thesis by (simp add: DeleteClick handleDelete_None)
  next
    case (Some img)
    then show ?thesis
      by (simp add: DeleteClick handleDelete_Some [OF Some] show_toast_def
          set_ref_value_fields setImage_def clear_timerRef_eq revoke_session_eq)
  qed
next
  case (ChooseImage v)
  then show ?thesis by (simp add: choose_image_def set_ref_value_fields)
next
  case (FileChange files c u)
  then show ?thesis
    by (simp add: handleFileChange_def show_toast_def setImage_def createObjectURL_def
        split: option.splits sum.splits)
next
  case (ProcessClick t)
  then show ?thesis by (simp add: handleProcess_def processImage_begin_def)
next
  case (Tick t)
  then show ?thesis by (simp add: tick_def clearInterval_def)
next
  case (ProgressReport p)
  then show ?thesis by (simp add: progress_callback_def split: option.splits)
next
  case (RunResolved t r u)
  then show ?thesis
    by (simp add: handleProcess_resolved_def Let_def show_toast_def completed_updater_def
        createObjectURL_def revokeObjectURL_def processImage_resolved_def clearInterval_def
        handleProcess_finally_def clear_timerRef_eq setImage_def split: option.splits)
next
  case (RunRejected t)
  then show ?thesis
    by (simp add: handleProcess_rejected_def Let_def show_toast_def failed_updater_def
        processImage_rejected_def clearInterval_def handleProcess_finally_def
        clear_timerRef_eq setImage_def split: option.splits)
next
  case (DownloadClick u)
  then show ?thesis
    by (simp add: handleDownload_def Let_def createObjectURL_def revokeObjectURL_def
        split: option.splits)
next
  case DragOver
  then show ?thesis by (simp add: handleDragOver_def)
next
  case DragLeave
  then show ?thesis by (simp add: handleDragLeave_def)
next
  case Drop
  then show ?thesis by (simp add: handleDrop_def handleFileChange_def)
qed

lemma ref_ok_render: "ref_ok s \<Longrightarrow> ref_ok (render s)"
  by (cases "fileInputRef s"; cases "originalInput s"; cases "uploadInput s")
     (auto simp: ref_ok_def render_def Let_def split: input_id.splits)

lemma ref_ok_cong:
  assumes "fileInputRef t = fileInputRef s"
    and "(originalInput t = None) = (originalInput s = None)"
    and "(uploadInput t = None) = (uploadInput s = None)"
  shows "ref_ok t = ref_ok s"
  using assms by (simp add: ref_ok_def split: option.splits input_id.splits)

lemma ref_ok_step: "ref_ok s \<Longrightarrow> ref_ok (step e s)"
proof -
  assume "ref_ok s"
  then have "ref_ok (callback e s)"
    using ref_ok_cong [of "callback e s" s] callback_keeps_inputs [of e s] by simp
  then have "ref_ok (render (callback e s))"
    by (rule ref_ok_render)
  moreover have "ref_ok (flushEffects (render (callback e s))) = ref_ok (render (callback e s))"
    by (rule ref_ok_cong) (simp_all add: inputs_flushEffects)
  ultimately show ?thesis by (simp add: step_def)
qed

lemma reachable_ref_ok: "reachable s \<Longrightarrow> ref_ok s"
  by (induction rule: reachable.induct) (simp_all add: ref_ok_step, simp add: initial_def ref_ok_def)

lemma session_hides_inputs:
  assumes "reachable s" and "image_state s = Some img"
  shows "uploadInput s = None"
    and "truthy_str (originalUrl img) \<Longrightarrow> originalInput s = None"
    and "truthy_str (originalUrl img) \<Longrightarrow> fileInputRef s = None"
proof -
  have ok: "original img \<noteq> None"
    using reachable_session_ok [OF assms] by (simp add: session_ok_def)
  have i: "inputs_ok s"
    using assms(1) by (rule reachable_inputs_ok)
  show u: "uploadInput s = None"
    using i ok assms(2) by (simp add: inputs_ok_def upload_input_rendered_def)
  show o: "originalInput s = None" if "truthy_str (originalUrl img)"
    using i that assms(2) by (simp add: inputs_ok_def original_input_rendered_def)
  show "fileInputRef s = None" if "truthy_str (originalUrl img)"
    using reachable_ref_ok [OF assms(1)] u o [OF that]
    by (simp add: ref_ok_def split: option.splits input_id.splits)
qed

lemma flushEffects_Some:
  "pendingCleanup x = Some old \<Longrightarrow> flushEffects x = (cleanup old x)\<lparr> pendingCleanup := None \<rparr>"
  by (simp add: flushEffects_def)

lemma step_DeleteClick_fields:
  assumes img: "image_state s = Some img" and c: "pendingCleanup s = None"
  shows "progress (step DeleteClick s) = 0"
    and "timeLeft (step DeleteClick s) = 0"
    and "isProcessing (step DeleteClick s) = False"
    and "isDragging (step DeleteClick s) = False"
    and "timers (step DeleteClick s) = timers s - held_timer s"
    and "timerRef (step DeleteClick s) = timerRef_cleared s"
    and "toasts (step DeleteClick s)
           = toasts s @ [success_toast ''Image deleted successfully'']"
    and "liveUrls (step DeleteClick s) = liveUrls s - session_refs img"
proof -
  let ?d = "handleDelete s"
  note f = handleDelete_fields [OF img]
  have pc: "pendingCleanup (render ?d) = Some (Some img)"
    using c by (simp add: f)
  have st: "step DeleteClick s = (cleanup (Some img) (render ?d))\<lparr> pendingCleanup := None \<rparr>"
    by (simp add: step_def flushEffects_Some [OF pc])
  have tr: "timerRef (render ?d) = timerRef_cleared s"
    by (simp add: f)
  show "progress (step DeleteClick s) = 0" "timeLeft (step DeleteClick s) = 0"
    "isProcessing (step DeleteClick s) = False"
    by (simp_all add: st cleanup_cells)
  show "isDragging (step DeleteClick s) = False"
    by (simp add: step_def isDragging_flushEffects isDragging_render f)
  show "timers (step DeleteClick s) = timers s - held_timer s"
    by (simp add: st cleanup_timers(1) held_timer_cleared [OF tr] f)
  show "timerRef (step DeleteClick s) = timerRef_cleared s"
    by (simp add: st cleanup_timers(2) timerRef_cleared_idem [OF tr] f)
  show "toasts (step DeleteClick s)
      = toasts s @ [success_toast ''Image deleted successfully'']"
    by (simp add: st toasts_cleanup f)
  show "liveUrls (step DeleteClick s) = liveUrls s - session_refs img"
    by (auto simp add: st liveUrls_cleanup f)
qed

subsection \<open>A run that fails\<close>

lemma handleProcess_rejected_cells:
  "progress (handleProcess_rejected t s) = 0"
  "timeLeft (handleProcess_rejected t s) = 0"
  "isProcessing (handleProcess_rejected t s) = False"
  by (simp_all add: handleProcess_rejected_def handleProcess_finally_def
      clear_timerRef_def clearInterval_def Let_def split: option.splits)

lemma flushEffects_cells:
  assumes "progress s = 0" and "timeLeft s = 0" and "\<not> isProcessing s"
  shows "progress (flushEffects s) = 0" and "timeLeft (flushEffects s) = 0"
    and "\<not> isProcessing (flushEffects s)"
  using assms by (simp_all add: flushEffects_def cleanup_cells split: option.splits)

lemma toasts_handleProcess_rejected:
  "toasts (handleProcess_rejected t s) = toasts s @ [processing_failed_toast]"
  by (simp add: handleProcess_rejected_def handleProcess_finally_def clear_timerRef_def
      clearInterval_def show_toast_def failed_updater_def setImage_def processImage_rejected_def
      Let_def split: option.splits)

lemma liveUrls_handleProcess_rejected:
  "liveUrls (handleProcess_rejected t s) = liveUrls s"
  by (simp add: handleProcess_rejected_def handleProcess_finally_def clear_timerRef_def
      clearInterval_def show_toast_def failed_updater_def setImage_def processImage_rejected_def
      Let_def split: option.splits)

lemma pendingCleanup_handleProcess_rejected:
  assumes "image_state s = Some img" and "pendingCleanup s = None"
  shows "pendingCleanup (handleProcess_rejected t s) = Some (Some img)"
  using assms
  by (simp add: handleProcess_rejected_def handleProcess_finally_def clear_timerRef_def
      clearInterval_def show_toast_def failed_updater_def setImage_def processImage_rejected_def
      Let_def split: option.splits)

lemma liveUrls_flushEffects:
  "liveUrls (flushEffects s) =
     liveUrls s - (case pendingCleanup s of Some (Some img) \<Rightarrow> session_refs img | _ \<Rightarrow> {})"
  by (simp add: flushEffects_def liveUrls_cleanup split: option.splits)

lemma timers_handleProcess_rejected:
  "truthy_id t \<Longrightarrow> t \<notin> timers (handleProcess_rejected t s)"
  by (simp add: handleProcess_rejected_def handleProcess_finally_def clear_timerRef_eq
      clearInterval_def show_toast_def failed_updater_def setImage_def processImage_rejected_def
      Let_def split: option.splits)

lemma timers_flushEffects: "timers (flushEffects x) \<subseteq> timers x"
  by (auto simp: flushEffects_def cleanup_timers(1) split: option.splits)

lemma timer_cancelled_after_rejection:
  assumes "truthy_id t" and "t \<in> set (runs s)"
  shows "t \<notin> timers (step (RunRejected t) s)"
proof -
  have "t \<notin> timers (render (handleProcess_rejected t s))"
    using assms(1) by (simp add: timers_handleProcess_rejected)
  then show ?thesis
    using timers_flushEffects [of "render (handleProcess_rejected t s)"] assms(2)
    by (auto simp: step_def)
qed

subsection \<open>The pattern of the download name\<close>

lemma replace_ext_no_dot: "CHR ''.'' \<notin> set n \<Longrightarrow> replace_ext n = n"
  by (induction n) auto

lemma replace_ext_match:
  assumes "ext \<noteq> []" and "list_all (\<lambda>d. d \<noteq> CHR ''/'' \<and> d \<noteq> CHR ''.'') ext"
  shows "replace_ext (xs @ CHR ''.'' # ext) = xs"
  using assms by (induction xs) (auto simp: list_all_iff)

lemma replace_ext_no_match:
  assumes "CHR ''.'' \<notin> set ext" and "ext = [] \<or> CHR ''/'' \<in> set ext"
  shows "replace_ext (xs @ CHR ''.'' # ext) = xs @ CHR ''.'' # ext"
  using assms by (induction xs) (auto simp: list_all_iff replace_ext_no_dot)

lemma split_last_dot:
  assumes "CHR ''.'' \<in> set n"
  shows "n = spec_stem n @ CHR ''.'' # spec_ext n" and "CHR ''.'' \<notin> set (spec_ext n)"
proof -
  let ?P = "\<lambda>c. c \<noteq> CHR ''.''"
  from assms have "dropWhile ?P (rev n) \<noteq> []"
    by simp
  moreover have "hd (dropWhile ?P (rev n)) = CHR ''.''"
    using assms hd_dropWhile [of ?P "rev n"] by auto
  ultimately have d: "dropWhile ?P (rev n) = CHR ''.'' # tl (dropWhile ?P (rev n))"
    by (cases "dropWhile ?P (rev n)") auto
  have "rev n = takeWhile ?P (rev n) @ dropWhile ?P (rev n)"
    by simp
  then have "rev n = takeWhile ?P (rev n) @ CHR ''.'' # tl (dropWhile ?P (rev n))"
    using d by simp
  then have "rev (rev n) = rev (takeWhile ?P (rev n) @ CHR ''.'' # tl (dropWhile ?P (rev n)))"
    by (rule arg_cong)
  then show "n = spec_stem n @ CHR ''.'' # spec_ext n"
    using assms by (simp add: spec_stem_def spec_ext_def)
  show "CHR ''.'' \<notin> set (spec_ext n)"
    using set_takeWhileD [of "CHR ''.''" ?P "rev n"] by (auto simp: spec_ext_def)
qed

lemma replace_ext_spec:
  "replace_ext n =
     (if CHR ''.'' \<in> set n \<and> spec_ext n \<noteq> [] \<and> CHR ''/'' \<notin> set (spec_ext n)
      then spec_stem n else n)"
proof (cases "CHR ''.'' \<in> set n")
  case False
  then show ?thesis by (simp add: replace_ext_no_dot)
next
  case True
  note s = split_last_dot [OF True]
  show ?thesis
  proof (cases "spec_ext n \<noteq> [] \<and> CHR ''/'' \<notin> set (spec_ext n)")
    case True
    then have "list_all (\<lambda>d. d \<noteq> CHR ''/'' \<and> d \<noteq> CHR ''.'') (spec_ext n)"
      using s(2) by (auto simp: list_all_iff)
    with True have "replace_ext (spec_stem n @ CHR ''.'' # spec_ext n) = spec_stem n"
      by (intro replace_ext_match) auto
    with s(1) True \<open>CHR ''.'' \<in> set n\<close> show ?thesis by simp
  next
    case False
    then have "replace_ext (spec_stem n @ CHR ''.'' # spec_ext n)
        = spec_stem n @ CHR ''.'' # spec_ext n"
      using s(2) by (intro replace_ext_no_match) auto
    with s(1) False show ?thesis by auto
  qed
qed


lemma dotted_done_eq:
  "dotted_done =
     \<lparr> image_state = Some (completed_session\<lparr> name := ''holiday.'' \<rparr>),
       isProcessing = False, progress = 0, isDragging = False, timeLeft = 0,
       timerRef = None, originalInput = None, uploadInput = None,
       fileInputRef = None, liveUrls = {''blob:2''}, timers = {},
       runs = [], toasts = [success_toast ''Image processed successfully''],
       downloads = [], pendingCleanup = None \<rparr>"
  by (simp add: dotted_done_def dotted_photo_def completed_session_def model_defs
      insert_Diff_if)

lemma reachable_dotted_done: "reachable dotted_done"
  unfolding dotted_done_def by (rule reachable_exec_initial)

lemma handleDownload_eq:
  assumes "image_state s = Some img" and "processed img = Some blob" and "name img \<noteq> []"
  shows "handleDownload link_href s =
     s\<lparr> liveUrls := liveUrls s - {link_href},
        downloads := downloads s @ [(download_name (name img), blob)] \<rparr>"
  using assms
  by (cases s)
     (simp add: handleDownload_def Let_def createObjectURL_def revokeObjectURL_def
        truthy_str_def)

subsection \<open>Rounding to binary64\<close>

lemma bit_length_bounds: "0 < n \<Longrightarrow> 2 ^ (bit_length n - 1) \<le> n \<and> n < 2 ^ bit_length n"
proof (induction n rule: bit_length.induct)
  case (1 n)
  show ?case
  proof (cases "n div 2 = 0")
    case True
    with "1.prems" have "n = 1" by presburger
    then show ?thesis by (simp add: bit_length.simps)
  next
    case False
    then have pos: "0 < n div 2" by simp
    with "1.IH" "1.prems" have ih: "2 ^ (bit_length (n div 2) - 1) \<le> n div 2"
        "n div 2 < 2 ^ bit_length (n div 2)" by auto
    have bl: "bit_length n = Suc (bit_length (n div 2))"
      using "1.prems" by (subst bit_length.simps) simp
    have "0 < bit_length (n div 2)"
      using pos by (subst bit_length.simps) simp
    then obtain j where j: "bit_length (n div 2) = Suc j"
      by (cases "bit_length (n div 2)") auto
    from ih j have "2 * 2 ^ j \<le> 2 * (n div 2)" by simp
    also have "\<dots> \<le> n" by presburger
    finally have lo: "2 ^ (bit_length n - 1) \<le> n" by (simp add: bl j)
    from ih(2) have "n div 2 + 1 \<le> 2 ^ bit_length (n div 2)" by simp
    then have "2 * (n div 2) + 2 \<le> 2 * 2 ^ bit_length (n div 2)" by simp
    moreover have "n < 2 * (n div 2) + 2" by presburger
    ultimately have "n < 2 ^ bit_length n" by (simp add: bl)
    with lo show ?thesis by simp
  qed
qed

lemma bit_length_pos: "0 < n \<Longrightarrow> 0 < bit_length n"
  by (subst bit_length.simps) simp

lemma bit_length_0 [simp]: "bit_length 0 = 0"
  by (simp add: bit_length.simps)

lemma rne_of_int [simp]: "rne (of_int n) = n"
  by (simp add: rne_def)

lemma rne_mono: "s \<le> t \<Longrightarrow> rne s \<le> rne t"
proof -
  assume st: "s \<le> t"
  then have f: "\<lfloor>s\<rfloor> \<le> \<lfloor>t\<rfloor>" by (rule floor_mono)
  show ?thesis
  proof (cases "\<lfloor>s\<rfloor> = \<lfloor>t\<rfloor>")
    case True
    with st have "s - of_int \<lfloor>s\<rfloor> \<le> t - of_int \<lfloor>t\<rfloor>" by simp
    with True show ?thesis by (auto simp: rne_def Let_def)
  next
    case False
    with f have "\<lfloor>s\<rfloor> + 1 \<le> \<lfloor>t\<rfloor>" by simp
    moreover have "rne s \<le> \<lfloor>s\<rfloor> + 1" by (simp add: rne_def Let_def)
    moreover have "\<lfloor>t\<rfloor> \<le> rne t" by (simp add: rne_def Let_def)
    ultimately show ?thesis by linarith
  qed
qed

lemma rne_le: "t \<le> of_int n \<Longrightarrow> rne t \<le> n"
  using rne_mono [of t "of_int n"] by simp

lemma rne_ge: "of_int n \<le> t \<Longrightarrow> n \<le> rne t"
  using rne_mono [of "of_int n" t] by simp

lemma rne_quotient:
  fixes q r d :: nat
  assumes "r < d"
  shows "rne (of_nat (q * d + r) / of_nat d)
           = int (if 2 * r > d \<or> (2 * r = d \<and> odd q) then q + 1 else q)"
proof -
  have d: "(of_nat d :: rat) > 0"
    using assms by simp
  have v: "(of_nat (q * d + r) :: rat) / of_nat d = of_nat q + of_nat r / of_nat d"
    using d by (simp add: field_simps)
  have "0 \<le> (of_nat r :: rat) / of_nat d" "(of_nat r :: rat) / of_nat d < 1"
    using assms d by simp_all
  then have fl: "\<lfloor>(of_nat q :: rat) + of_nat r / of_nat d\<rfloor> = int q"
    by (simp add: floor_unique)
  have c1: "((of_nat r :: rat) / of_nat d > 1 / 2) = (2 * r > d)"
  proof -
    have "((of_nat r :: rat) / of_nat d > 1 / 2) = ((of_nat (2 * r) :: rat) > of_nat d)"
      using d by (simp add: field_simps)
    then show ?thesis by (simp only: of_nat_less_iff)
  qed
  have c2: "((of_nat r :: rat) / of_nat d = 1 / 2) = (2 * r = d)"
  proof -
    have "((of_nat r :: rat) / of_nat d = 1 / 2) = ((of_nat (2 * r) :: rat) = of_nat d)"
      using d by (auto simp add: field_simps)
    then show ?thesis by (simp only: of_nat_eq_iff)
  qed
  have fr: "(of_nat q :: rat) + of_nat r / of_nat d - of_int (int q) = of_nat r / of_nat d"
    by simp
  show ?thesis
    unfolding rne_def Let_def v fl fr c1 c2
    by simp
qed

lemma round_half_even_rne: "int (round_half_even m k) = rne (of_nat m / 2 ^ k)"
proof -
  have r: "m mod 2 ^ k < 2 ^ k"
    by simp
  have "rne (of_nat (m div 2 ^ k * 2 ^ k + m mod 2 ^ k) / of_nat (2 ^ k))
      = int (round_half_even m k)"
    unfolding rne_quotient [OF r] round_half_even_def Let_def ..
  then show ?thesis
    by (simp only: div_mult_mod_eq of_nat_power of_nat_numeral)
qed

lemma two_powi_pos: "(0::rat) < 2 powi g"
  by simp

lemma on_grid_mono: "x \<le> y \<Longrightarrow> on_grid g x \<le> on_grid g y"
  unfolding on_grid_def
  by (intro mult_left_mono iffD2 [OF of_int_le_iff] rne_mono divide_right_mono)
     (simp_all add: less_imp_le [OF two_powi_pos])

lemma on_grid_fixed:
  assumes "g \<le> n"
  shows "on_grid g (of_int z * 2 powi n) = of_int z * 2 powi n"
proof -
  have "(of_int z * 2 powi n :: rat) / 2 powi g = of_int z * 2 powi (n - g)"
    by (simp add: power_int_diff)
  also have "\<dots> = of_int z * 2 ^ nat (n - g)"
    using assms by (simp add: power_int_def)
  also have "\<dots> = of_int (z * 2 ^ nat (n - g))"
    by simp
  finally have "rne ((of_int z * 2 powi n :: rat) / 2 powi g) = z * 2 ^ nat (n - g)"
    by (simp only: rne_of_int)
  then have "on_grid g (of_int z * 2 powi n) = 2 powi g * (of_int z * 2 ^ nat (n - g))"
    by (simp add: on_grid_def)
  also have "\<dots> = of_int z * (2 powi g * 2 powi (n - g))"
    using assms by (simp add: power_int_def)
  also have "\<dots> = of_int z * 2 powi n"
    by (simp flip: power_int_add)
  finally show ?thesis .
qed

lemma on_grid_of_int: "g \<le> 0 \<Longrightarrow> on_grid g (of_int z) = of_int z"
  using on_grid_fixed [of g 0 z] by simp

lemma on_grid_powi: "g \<le> n \<Longrightarrow> on_grid g (2 powi n) = 2 powi n"
  using on_grid_fixed [of g n 1] by simp

lemma binade:
  assumes "0 < m"
  shows "2 powi (int (bit_length m) + e - 1) \<le> (of_nat m :: rat) * 2 powi e"
    and "(of_nat m :: rat) * 2 powi e < 2 powi (int (bit_length m) + e)"
proof -
  from bit_length_bounds [OF assms]
  have lo: "2 ^ (bit_length m - 1) \<le> m" and hi: "m < 2 ^ bit_length m"
    by simp_all
  have pos: "0 < bit_length m"
    using assms by (rule bit_length_pos)
  have "(of_nat (2 ^ (bit_length m - 1)) :: rat) \<le> of_nat m"
    using lo by (simp only: of_nat_le_iff)
  then have "(2 ^ (bit_length m - 1) :: rat) * 2 powi e \<le> of_nat m * 2 powi e"
    by (intro mult_right_mono) (simp_all add: less_imp_le [OF two_powi_pos])
  moreover have "(2 powi (int (bit_length m) + e - 1) :: rat)
      = 2 ^ (bit_length m - 1) * 2 powi e"
  proof -
    have "int (bit_length m) + e - 1 = int (bit_length m - 1) + e"
      using pos by simp
    then have "(2 powi (int (bit_length m) + e - 1) :: rat)
        = 2 powi (int (bit_length m - 1) + e)"
      by (rule arg_cong)
    also have "\<dots> = 2 powi int (bit_length m - 1) * 2 powi e"
      by (rule power_int_add) simp
    finally show ?thesis by (simp only: power_int_of_nat)
  qed
  ultimately show "2 powi (int (bit_length m) + e - 1) \<le> (of_nat m :: rat) * 2 powi e"
    by simp
  have "(of_nat m :: rat) < of_nat (2 ^ bit_length m)"
    using hi by (simp only: of_nat_less_iff)
  then have "(of_nat m :: rat) * 2 powi e < 2 ^ bit_length m * 2 powi e"
    by (intro mult_strict_right_mono) (simp_all add: two_powi_pos)
  then show "(of_nat m :: rat) * 2 powi e < 2 powi (int (bit_length m) + e)"
    by (simp add: power_int_add)
qed

lemma powi_less_imp_less: "(2::rat) powi a < 2 powi c \<Longrightarrow> a < c"
  using power_int_increasing [of c a "2::rat"] by (cases "a < c") auto

lemma bit_length_le: "n \<le> 2 ^ j \<Longrightarrow> bit_length n \<le> Suc j"
proof (cases "n = 0")
  case False
  assume "n \<le> 2 ^ j"
  moreover from False have "2 ^ (bit_length n - 1) \<le> n"
    using bit_length_bounds [of n] by simp
  ultimately have "(2::nat) ^ (bit_length n - 1) < 2 ^ Suc j"
    by (simp add: le_less_trans)
  then have "bit_length n - 1 < Suc j"
    by (simp only: power_strict_increasing_iff one_less_numeral_iff num.simps less_num_simps)
  then show ?thesis by simp
qed simp

lemma round_half_even_le: "m \<le> b * 2 ^ k \<Longrightarrow> round_half_even m k \<le> b"
proof -
  assume "m \<le> b * 2 ^ k"
  then have "(of_nat m :: rat) \<le> of_nat (b * 2 ^ k)"
    by (simp only: of_nat_le_iff)
  then have "(of_nat m :: rat) / 2 ^ k \<le> of_int (int b)"
    by (simp add: field_simps)
  then have "rne (of_nat m / 2 ^ k) \<le> int b"
    by (rule rne_le)
  then show ?thesis
    by (simp flip: round_half_even_rne)
qed

lemma round_double_on_grid:
  assumes "0 < m" and "- 1074 \<le> e" and "int (bit_length m) + e \<le> 1023"
  shows "\<exists>d. round_double neg m e = Some d \<and> negative d = neg \<and>
           (of_nat (mantissa d) :: rat) * 2 powi exponent d
             = on_grid (int (bit_length m) + e - 53) (of_nat m * 2 powi e)"
proof (cases "bit_length m \<le> 53")
  case True
  then have k: "max (int (bit_length m) - 53) (- 1074 - e) \<le> 0"
    using assms(2) by simp
  have "on_grid (int (bit_length m) + e - 53) (of_int (int m) * 2 powi e)
      = of_int (int m) * 2 powi e"
    using True by (intro on_grid_fixed) simp
  then show ?thesis
    using k assms(3) by (simp add: round_double_def Let_def)
next
  case False
  define k where "k = bit_length m - 53"
  have kpos: "0 < k" and bl: "bit_length m = 53 + k"
    using False by (simp_all add: k_def)
  have kmax: "max (int (bit_length m) - 53) (- 1074 - e) = int k"
    using assms(2) bl by simp
  have "m < 2 ^ (53 + k)"
    using bit_length_bounds [OF assms(1)] bl by simp
  then have "m \<le> 2 ^ 53 * 2 ^ k"
    by (simp add: power_add)
  then have q: "round_half_even m k \<le> 2 ^ 53"
    by (rule round_half_even_le)
  then have "bit_length (round_half_even m k) \<le> 54"
    using bit_length_le [of "round_half_even m k" 53] by simp
  then have fin: "int (bit_length (round_half_even m k)) + (e + int k) \<le> 1024"
    using assms(3) bl by simp
  have "(of_nat m :: rat) * 2 powi e / 2 powi (e + int k) = of_nat m / 2 ^ k"
    by (simp add: power_int_add)
  then have "on_grid (int (bit_length m) + e - 53) (of_nat m * 2 powi e)
      = 2 powi (e + int k) * of_int (rne (of_nat m / 2 ^ k))"
    by (simp add: on_grid_def bl add.commute)
  also have "\<dots> = of_nat (round_half_even m k) * 2 powi (e + int k)"
    by (simp flip: round_half_even_rne)
  finally show ?thesis
    using kpos fin by (simp add: round_double_def Let_def kmax)
qed

lemma value_of_nonneg:
  assumes "0 \<le> value_of p" and "mantissa p \<noteq> 0"
  shows "\<not> negative p" and "value_of p = of_nat (mantissa p) * 2 powi exponent p"
proof -
  have pos: "(0::rat) < of_nat (mantissa p) * 2 powi exponent p"
    using assms(2) by (simp add: two_powi_pos)
  show "\<not> negative p"
  proof
    assume "negative p"
    then have "value_of p = - (of_nat (mantissa p) * 2 powi exponent p)"
      by (simp add: value_of_def)
    with pos assms(1) show False by linarith
  qed
  then show "value_of p = of_nat (mantissa p) * 2 powi exponent p"
    by (simp add: value_of_def)
qed

lemma exact_product:
  assumes "0 \<le> value_of p" and "mantissa p \<noteq> 0"
  shows "(of_nat (mantissa p * 25) :: rat) * 2 powi (exponent p + 2) = 100 * value_of p"
proof -
  have "(2::rat) powi (exponent p + 2) = 2 powi exponent p * 2 powi 2"
    by (rule power_int_add) simp
  then show ?thesis
    by (simp add: value_of_nonneg(2) [OF assms])
qed

lemma binade_100:
  assumes "0 \<le> value_of p" and "mantissa p \<noteq> 0"
  shows "2 powi (binade_of p - 1) \<le> 100 * value_of p"
    and "100 * value_of p < 2 powi binade_of p"
  using binade [of "mantissa p * 25" "exponent p + 2"] assms
  by (simp_all add: binade_of_def flip: exact_product [OF assms])

lemma binade_of_le_7:
  assumes "0 \<le> value_of p" and "mantissa p \<noteq> 0" and "value_of p \<le> 1"
  shows "binade_of p \<le> 7"
proof -
  have "(2::rat) powi (binade_of p - 1) \<le> 100 * value_of p"
    using assms(1,2) by (rule binade_100)
  also have "\<dots> < 2 powi 7"
    using assms(3) by simp
  finally have "binade_of p - 1 < 7"
    by (rule powi_less_imp_less)
  then show ?thesis by simp
qed

lemma times_hundred:
  assumes "valid_double p" and "0 \<le> value_of p" and "value_of p \<le> 1"
  shows "\<exists>d. times_double p hundred = Some d \<and> value_of d = rounded100 p"
proof (cases "mantissa p = 0")
  case True
  have "- 1074 - (exponent p + 2) \<le> 0"
    using assms(1) by (simp add: valid_double_def)
  then have "max (- 53) (- 1074 - (exponent p + 2)) \<le> 0"
    by simp
  then show ?thesis
    using True
    by (simp add: times_double_def hundred_def round_double_def Let_def rounded100_def
        value_of_def)
next
  case False
  have e: "- 1074 \<le> exponent p + 2"
    using assms(1) by (simp add: valid_double_def)
  have b: "int (bit_length (mantissa p * 25)) + (exponent p + 2) \<le> 1023"
    using binade_of_le_7 [OF assms(2) False assms(3)] by (simp add: binade_of_def)
  from round_double_on_grid [OF _ e b, of "negative p"] False
  obtain d where d: "round_double (negative p) (mantissa p * 25) (exponent p + 2) = Some d"
      "negative d = negative p"
      "(of_nat (mantissa d) :: rat) * 2 powi exponent d
         = on_grid (int (bit_length (mantissa p * 25)) + (exponent p + 2) - 53)
             (of_nat (mantissa p * 25) * 2 powi (exponent p + 2))"
    by auto
  have "value_of d = of_nat (mantissa d) * 2 powi exponent d"
    using d(2) value_of_nonneg(1) [OF assms(2) False] by (simp add: value_of_def)
  also have "\<dots> = on_grid (int (bit_length (mantissa p * 25)) + (exponent p + 2) - 53)
      (100 * value_of p)"
    using d(3) by (simp only: exact_product [OF assms(2) False])
  also have "\<dots> = rounded100 p"
    using False by (simp add: rounded100_def)
  finally have "value_of d = rounded100 p" .
  then show ?thesis
    using d(1) by (simp add: times_double_def hundred_def)
qed

lemma rounded100_between:
  assumes "0 \<le> value_of p" and "value_of p \<le> 1"
    and "of_int lo \<le> 100 * value_of p" and "100 * value_of p \<le> of_int hi"
  shows "of_int lo \<le> rounded100 p" and "rounded100 p \<le> of_int hi"
proof -
  have "of_int lo \<le> rounded100 p \<and> rounded100 p \<le> of_int hi"
  proof (cases "mantissa p = 0")
    case True
    then have "value_of p = 0" by (simp add: value_of_def)
    with assms(3,4) True show ?thesis by (simp add: rounded100_def)
  next
    case False
    let ?g = "binade_of p - 53"
    have g: "?g \<le> 0"
      using binade_of_le_7 [OF assms(1) False assms(2)] by simp
    have "on_grid ?g (of_int lo) \<le> on_grid ?g (100 * value_of p)"
      using assms(3) by (rule on_grid_mono)
    moreover have "on_grid ?g (100 * value_of p) \<le> on_grid ?g (of_int hi)"
      using assms(4) by (rule on_grid_mono)
    ultimately show ?thesis
      using False g by (simp add: on_grid_of_int rounded100_def binade_of_def)
  qed
  then show "of_int lo \<le> rounded100 p" and "rounded100 p \<le> of_int hi"
    by simp_all
qed

lemma rounded100_mono:
  assumes p: "0 \<le> value_of p" "value_of p \<le> 1"
    and q: "value_of p \<le> value_of q" "value_of q \<le> 1"
  shows "rounded100 p \<le> rounded100 q"
proof (cases "mantissa p = 0")
  case True
  have "of_int 0 \<le> rounded100 q"
    using p q by (intro rounded100_between(1) [where hi = 100]) simp_all
  with True show ?thesis by (simp add: rounded100_def)
next
  case False
  have q0: "0 \<le> value_of q"
    using p(1) q(1) by simp
  have "0 < value_of p"
    using value_of_nonneg(2) [OF p(1) False] False by (simp add: two_powi_pos)
  with q(1) have "value_of q \<noteq> 0" by simp
  then have mq: "mantissa q \<noteq> 0"
    by (auto simp: value_of_def)
  have xy: "100 * value_of p \<le> 100 * value_of q"
    using q(1) by simp
  have "(2::rat) powi (binade_of p - 1) \<le> 100 * value_of p"
    using p(1) False by (rule binade_100)
  also note xy
  also have "100 * value_of q < 2 powi binade_of q"
    using q0 mq by (rule binade_100)
  finally have "binade_of p - 1 < binade_of q"
    by (rule powi_less_imp_less)
  then consider "binade_of p = binade_of q" | "binade_of p \<le> binade_of q - 1"
    by linarith
  then show ?thesis
  proof cases
    case 1
    then show ?thesis
      using on_grid_mono [OF xy, of "binade_of p - 53"] False mq
      by (simp add: rounded100_def binade_of_def)
  next
    case 2
    have "rounded100 p = on_grid (binade_of p - 53) (100 * value_of p)"
      using False by (simp add: rounded100_def binade_of_def)
    also have "\<dots> \<le> on_grid (binade_of p - 53) (2 powi binade_of p)"
      using binade_100(2) [OF p(1) False] by (intro on_grid_mono) simp
    also have "\<dots> = 2 powi binade_of p"
      by (rule on_grid_powi) simp
    also have "\<dots> \<le> 2 powi (binade_of q - 1)"
      using 2 by (intro power_int_increasing) simp_all
    also have "\<dots> = on_grid (binade_of q - 53) (2 powi (binade_of q - 1))"
      by (rule on_grid_powi [symmetric]) simp
    also have "\<dots> \<le> on_grid (binade_of q - 53) (100 * value_of q)"
      using binade_100(1) [OF q0 mq] by (rule on_grid_mono)
    also have "\<dots> = rounded100 q"
      using mq by (simp add: rounded100_def binade_of_def)
    finally show ?thesis .
  qed
qed

lemma progressValue_rounded100:
  assumes "valid_double p" and "0 \<le> value_of p" and "value_of p \<le> 1"
  shows "progressValue p = Some \<lfloor>rounded100 p\<rfloor>"
  using times_hundred [OF assms] by (auto simp: progressValue_def)

lemma bit_length_eq:
  assumes "2 ^ (k - 1) \<le> n" and "n < 2 ^ k" and "0 < k"
  shows "bit_length n = k"
proof -
  have "0 < n"
    using assms(1) by (cases "n = 0") auto
  from bit_length_bounds [OF this]
  have lo: "2 ^ (bit_length n - 1) \<le> n" and hi: "n < 2 ^ bit_length n"
    by simp_all
  have "(2::nat) ^ (bit_length n - 1) < 2 ^ k"
    using lo assms(2) by (rule le_less_trans)
  then have a: "bit_length n - 1 < k"
    by (simp only: power_strict_increasing_iff one_less_numeral_iff num.simps less_num_simps)
  have "(2::nat) ^ (k - 1) < 2 ^ bit_length n"
    using assms(1) hi by (rule le_less_trans)
  then have b: "k - 1 < bit_length n"
    by (simp only: power_strict_increasing_iff one_less_numeral_iff num.simps less_num_simps)
  show ?thesis
    using a b assms(3) by simp
qed

lemma p035_value: "progressValue p035 = Some 35"
proof -
  have b: "bit_length 157625986957967350 = 58"
    by (rule bit_length_eq) simp_all
  have r: "round_half_even 157625986957967350 5 = 4925812092436480"
    by (simp add: round_half_even_def Let_def)
  have b2: "bit_length 4925812092436480 = 53"
    by (rule bit_length_eq) simp_all
  show ?thesis
    by (simp add: progressValue_def times_double_def hundred_def p035_def round_double_def
        Let_def b r b2 value_of_def)
qed

lemma p050_value: "progressValue p050 = Some 50"
proof -
  have b: "bit_length 25 = 5"
    by (rule bit_length_eq) simp_all
  show ?thesis
    by (simp add: progressValue_def times_double_def hundred_def p050_def round_double_def
        Let_def b value_of_def)
qed

lemma p035_exact_floor: "\<lfloor>100 * value_of p035\<rfloor> = 34"
  by (simp add: floor_eq_iff p035_def value_of_def)

section \<open>The processed URL and the status\<close>

text \<open>
  C1, as the claim states it, fails: after a run has succeeded, a second run on the same
  session that fails stores the status \<open>failed\<close> and keeps the processed URL of the first
  run, so the URL is set in a reachable state whose status is not \<open>completed\<close>.
\<close>

theorem processedUrl_set_while_failed:
  "reachable retry_failed \<and>
   map_option processedUrl (image_state retry_failed) = Some (Some ''blob:2'') \<and>
   map_option status (image_state retry_failed) = Some Failed"
  using reachable_retry_failed by (simp add: retry_failed_eq completed_session_def)

text \<open>
  C1, amended: in every reachable state with a session, the status \<open>completed\<close> implies
  that the processed URL is set, and a processed URL that is set implies the status
  \<open>completed\<close> or \<open>failed\<close>; a run that fails changes nothing of the session but its
  status, so it leaves the processed URL as it was.
\<close>

theorem processedUrl_status_reachable:
  assumes "reachable s" and "image_state s = Some img"
  shows "(status img = Completed \<longrightarrow> processedUrl img \<noteq> None) \<and>
         (processedUrl img \<noteq> None \<longrightarrow> status img = Completed \<or> status img = Failed) \<and>
         (\<forall>timer. timer \<in> set (runs s) \<longrightarrow>
            image_state (step (RunRejected timer) s) = Some (img\<lparr> status := Failed \<rparr>))"
proof -
  have ok: "session_ok img"
    using assms by (rule reachable_session_ok)
  have "status img = Completed \<longrightarrow> processedUrl img \<noteq> None"
    using ok by (simp add: session_ok_def)
  moreover have "processedUrl img \<noteq> None \<longrightarrow> status img = Completed \<or> status img = Failed"
    using ok by (cases "status img") (auto simp: session_ok_def)
  moreover have "\<forall>timer. timer \<in> set (runs s) \<longrightarrow>
      image_state (step (RunRejected timer) s) = Some (img\<lparr> status := Failed \<rparr>)"
    using assms(2) by (simp add: step_def image_state_handleProcess_rejected)
  ultimately show ?thesis by blast
qed

theorem processedUrl_status_reachable_witness:
  "reachable retry_pending \<and> image_state retry_pending = Some completed_session \<and>
   status completed_session = Completed \<and> processedUrl completed_session = Some ''blob:2'' \<and>
   2 \<in> set (runs retry_pending) \<and>
   image_state (step (RunRejected 2) retry_pending)
     = Some (completed_session\<lparr> status := Failed \<rparr>)"
  using processedUrl_status_reachable [of retry_pending completed_session]
    reachable_retry_pending
  by (simp add: retry_pending_eq completed_session_def)

section \<open>Upload and validation\<close>

text \<open>
  C6: a candidate file whose MIME type is none of \<open>image/jpeg\<close>, \<open>image/png\<close>,
  \<open>image/webp\<close> is rejected with the error \<open>InvalidType\<close>: the validation throws it, the
  callback does nothing but show it in a toast, and the session is the one there was
  before (none, if there was none), also after the commit.
\<close>

theorem upload_invalid_type:
  assumes "file_type file \<notin> set [''image/jpeg'', ''image/png'', ''image/webp'']"
  shows "validate file = Some InvalidType \<and>
         handleFileChange (Some file) compression imageUrl s
           = s\<lparr> toasts := toasts s @ [error_toast InvalidType] \<rparr> \<and>
         image_state (step (FileChange (Some file) compression imageUrl) s) = image_state s"
proof -
  have v: "validate file = Some InvalidType"
    using assms by (simp add: validate_def upload_types_def)
  then have "handleFileChange (Some file) compression imageUrl s
      = s\<lparr> toasts := toasts s @ [error_toast InvalidType] \<rparr>"
    by (simp add: handleFileChange_def show_toast_def)
  then show ?thesis using v by (simp add: step_def)
qed

theorem upload_invalid_type_witness:
  "file_type text_file \<notin> set [''image/jpeg'', ''image/png'', ''image/webp''] \<and>
   validate text_file = Some InvalidType \<and>
   handleFileChange (Some text_file) (Inr photo_compressed) ''blob:1'' initial
     = initial\<lparr> toasts := [error_toast InvalidType] \<rparr> \<and>
   image_state (step (FileChange (Some text_file) (Inr photo_compressed) ''blob:1'') initial)
     = None"
  using upload_invalid_type [of text_file "Inr photo_compressed" "''blob:1''" initial]
  by (simp add: text_file_def initial_def)

text \<open>
  C3, as the claim states it, fails: the check is \<open>file.size > maxSize\<close>, so a PNG of
  exactly 10 MiB passes the validation and becomes the session; and a file of 20 MiB
  whose type is not allowed is rejected by the type check, which comes first, with
  \<open>InvalidType\<close> and not with \<open>TooLarge\<close>.
\<close>

theorem ten_MiB_file_accepted:
  "file_size exact_10MiB = 10 * 1024 * 1024 \<and> validate exact_10MiB = None \<and>
   image_state (step (FileChange (Some exact_10MiB) (Inr photo_compressed) ''blob:1'') initial)
     = Some (new_session exact_10MiB photo_compressed ''blob:1'') \<and>
   file_size huge_pdf \<ge> 10 * 1024 * 1024 \<and> validate huge_pdf = Some InvalidType \<and>
   InvalidType \<noteq> TooLarge"
  using InvalidType_neq_TooLarge
  by (simp add: exact_10MiB_def huge_pdf_def validate_def upload_types_def maxSize_def
      step_def handleFileChange_def)

text \<open>
  C3, amended: a candidate file of more than 10 MiB is rejected, with \<open>TooLarge\<close> when its
  MIME type is allowed and with \<open>InvalidType\<close> otherwise, the callback does nothing but
  show the error, and the session is the one there was before; a file passes the
  validation only if its size does not exceed 10 MiB; and every file of an allowed type
  whose size does not exceed 10 MiB, one of exactly 10 MiB among them, passes the
  validation and becomes the session when its compression succeeds.
\<close>

theorem upload_too_large:
  "(file_size file > 10 * 1024 * 1024 \<longrightarrow>
      validate file
        = Some (if file_type file \<in> set upload_types then TooLarge else InvalidType) \<and>
      handleFileChange (Some file) compression imageUrl s
        = s\<lparr> toasts := toasts s @
              [error_toast (if file_type file \<in> set upload_types then TooLarge
                            else InvalidType)] \<rparr> \<and>
      image_state (step (FileChange (Some file) compression imageUrl) s) = image_state s) \<and>
   (validate file = None \<longrightarrow> file_size file \<le> 10 * 1024 * 1024) \<and>
   (file_type file \<in> set upload_types \<and> file_size file \<le> 10 * 1024 * 1024 \<longrightarrow>
      validate file = None \<and>
      image_state (step (FileChange (Some file) (Inr compressedFile) imageUrl) s)
        = Some (new_session file compressedFile imageUrl))"
  by (simp add: validate_def maxSize_def handleFileChange_def show_toast_def step_def
      createObjectURL_def)

theorem upload_too_large_witness:
  "file_size oversized > 10 * 1024 * 1024 \<and> file_type oversized \<in> set upload_types \<and>
   validate oversized = Some TooLarge \<and>
   handleFileChange (Some oversized) (Inr photo_compressed) ''blob:1'' initial
     = initial\<lparr> toasts := [error_toast TooLarge] \<rparr> \<and>
   image_state (step (FileChange (Some oversized) (Inr photo_compressed) ''blob:1'') initial)
     = None \<and>
   validate photo = None \<and> file_size photo \<le> 10 * 1024 * 1024 \<and>
   file_type exact_10MiB \<in> set upload_types \<and>
   file_size exact_10MiB = 10 * 1024 * 1024 \<and> validate exact_10MiB = None \<and>
   image_state (step (FileChange (Some exact_10MiB) (Inr photo_compressed) ''blob:1'') initial)
     = Some (new_session exact_10MiB photo_compressed ''blob:1'')"
  using upload_too_large [of oversized "Inr photo_compressed" "''blob:1''" initial]
    upload_too_large [of photo "Inr photo_compressed" "''blob:1''" initial]
    upload_too_large [of exact_10MiB "Inr photo_compressed" "''blob:1''" initial
      photo_compressed]
  by (simp add: oversized_def photo_def exact_10MiB_def upload_types_def initial_def
      validate_def maxSize_def)

text \<open>
  C10: when the upload is rejected, by the type check, by the size check or because the
  compression throws, the callback changes nothing of the state but the list of toasts,
  to which it adds the error: the session, if there is one, keeps every field. The
  commit that follows changes nothing either.
\<close>

theorem upload_rejection_atomic:
  assumes "(file_type file \<notin> set upload_types \<and> e = InvalidType) \<or>
           (file_type file \<in> set upload_types \<and> file_size file > maxSize \<and> e = TooLarge) \<or>
           (file_type file \<in> set upload_types \<and> file_size file \<le> maxSize \<and>
              compression = Inl e)"
  shows "handleFileChange (Some file) compression imageUrl s
           = s\<lparr> toasts := toasts s @ [error_toast e] \<rparr> \<and>
         image_state (step (FileChange (Some file) compression imageUrl) s) = image_state s \<and>
         (reachable s \<longrightarrow>
            step (FileChange (Some file) compression imageUrl) s
              = s\<lparr> toasts := toasts s @ [error_toast e] \<rparr>)"
proof -
  have h: "handleFileChange (Some file) compression imageUrl s
      = s\<lparr> toasts := toasts s @ [error_toast e] \<rparr>"
    using assms by (auto simp: handleFileChange_def validate_def show_toast_def)
  moreover have
    "image_state (step (FileChange (Some file) compression imageUrl) s) = image_state s"
    using h by (simp add: step_def)
  moreover have "reachable s \<longrightarrow> step (FileChange (Some file) compression imageUrl) s
      = s\<lparr> toasts := toasts s @ [error_toast e] \<rparr>"
  proof
    assume r: "reachable s"
    have "step (FileChange (Some file) compression imageUrl) s
        = callback (FileChange (Some file) compression imageUrl) s"
      using r by (rule step_unchanged) (simp_all add: h reachable_committed [OF r])
    then show "step (FileChange (Some file) compression imageUrl) s
        = s\<lparr> toasts := toasts s @ [error_toast e] \<rparr>"
      by (simp add: h)
  qed
  ultimately show ?thesis by blast
qed

theorem upload_rejection_atomic_witness:
  "file_type photo \<in> set upload_types \<and> file_size photo \<le> maxSize \<and>
   reachable processed_once \<and>
   step (FileChange (Some photo) (Inl (Error ''out of memory'')) ''blob:3'') processed_once
     = processed_once\<lparr> toasts := toasts processed_once
                                    @ [error_toast (Error ''out of memory'')] \<rparr> \<and>
   image_state
     (step (FileChange (Some photo) (Inl (Error ''out of memory'')) ''blob:3'') processed_once)
     = Some completed_session"
  using upload_rejection_atomic [of photo "Error ''out of memory''"
      "Inl (Error ''out of memory'')" "''blob:3''" processed_once] reachable_processed_once
  by (simp add: photo_def upload_types_def maxSize_def processed_once_eq)

section \<open>Replacing a session\<close>




section \<open>Delete\<close>

text \<open>
  C4, as the claim states it, fails in three ways. Without a session \<open>handleDelete\<close>
  returns at once: no success is reported and the countdown keeps its value, 20 in the
  initial state. With a session, delete cancels only the interval that \<open>timerRef\<close> holds:
  after a run of a deleted session has resolved and set \<open>timerRef\<close> to null, the interval
  of the run that is pending stays set. And delete releases only the two references of
  the session: a reference created by a run that resolved when no session was there
  stays live.
\<close>

theorem delete_not_unconditional:
  "step DeleteClick initial = initial \<and> toasts (step DeleteClick initial) = [] \<and>
   timeLeft (step DeleteClick initial) = 20 \<and>
   reachable stale_timer \<and> image_state stale_timer \<noteq> None \<and> 2 \<in> timers stale_timer \<and>
   2 \<in> timers (step DeleteClick stale_timer) \<and>
   reachable leaked \<and> image_state leaked \<noteq> None \<and>
   liveUrls (step DeleteClick leaked) = {''blob:2''}"
proof -
  have "step DeleteClick initial = initial"
    by (simp add: step_def handleDelete_def flushEffects_def render_def Let_def initial_def
        original_input_rendered_def upload_input_rendered_def)
  moreover have "toasts initial = []" "timeLeft initial = 20"
    by (simp_all add: initial_def)
  moreover have "2 \<in> timers (step DeleteClick stale_timer)"
    using step_DeleteClick_fields(5) [of stale_timer]
    by (simp add: stale_timer_eq held_timer_def)
  moreover have "liveUrls (step DeleteClick leaked) = {''blob:2''}"
    using step_DeleteClick_fields(8) [of leaked]
    by (simp add: leaked_eq session_refs_def pending_session_def truthy_str_def
        insert_Diff_if)
  ultimately show ?thesis
    using reachable_stale_timer reachable_leaked by (simp add: stale_timer_eq leaked_eq)
qed

text \<open>
  C4, amended: in a reachable state without a session, delete changes nothing. In a
  reachable state with a session, delete removes the session, sets \<open>isProcessing\<close> to
  false, progress and countdown to 0 and the drag flag to false, cancels the interval
  that \<open>timerRef\<close> holds and no other, reports success, and releases the references of the
  session: the live references afterwards are those of before without the session's,
  so none is left when no other was live. After the commit the file input of the upload
  section is a new, empty element and the ref points to it; while a session with an
  object URL exists no file input is in the document and the ref is null, so the
  handler's own \<open>fileInputRef.current.value = ''\<close> has nothing to clear.
\<close>

theorem delete_clears_session:
  assumes "reachable s"
  shows "(image_state s = None \<longrightarrow> step DeleteClick s = s) \<and>
         (\<forall>img. image_state s = Some img \<longrightarrow>
            image_state (step DeleteClick s) = None \<and>
            isProcessing (step DeleteClick s) = False \<and>
            progress (step DeleteClick s) = 0 \<and>
            timeLeft (step DeleteClick s) = 0 \<and>
            isDragging (step DeleteClick s) = False \<and>
            (\<forall>t. timerRef s = Some t \<and> truthy_id t \<longrightarrow>
                 timerRef (step DeleteClick s) = None \<and> t \<notin> timers (step DeleteClick s)) \<and>
            timers (step DeleteClick s) = timers s - held_timer s \<and>
            toasts (step DeleteClick s)
              = toasts s @ [success_toast ''Image deleted successfully''] \<and>
            liveUrls (step DeleteClick s) = liveUrls s - session_refs img \<and>
            (liveUrls s \<subseteq> session_refs img \<longrightarrow> liveUrls (step DeleteClick s) = {}) \<and>
            fileInputRef (step DeleteClick s) = Some UploadInput \<and>
            uploadInput (step DeleteClick s) = Some [] \<and>
            (truthy_str (originalUrl img) \<longrightarrow>
               fileInputRef s = None \<and> originalInput (step DeleteClick s) = Some []))"
proof -
  have c: "pendingCleanup s = None"
    using assms by (rule reachable_committed)
  have none: "step DeleteClick s = s" if "image_state s = None"
  proof -
    have "step DeleteClick s = callback DeleteClick s"
      using assms by (rule step_unchanged) (simp_all add: handleDelete_None [OF that] c)
    then show ?thesis by (simp add: handleDelete_None [OF that])
  qed
  have some: "image_state (step DeleteClick s) = None \<and>
            isProcessing (step DeleteClick s) = False \<and>
            progress (step DeleteClick s) = 0 \<and>
            timeLeft (step DeleteClick s) = 0 \<and>
            isDragging (step DeleteClick s) = False \<and>
            (\<forall>t. timerRef s = Some t \<and> truthy_id t \<longrightarrow>
                 timerRef (step DeleteClick s) = None \<and> t \<notin> timers (step DeleteClick s)) \<and>
            timers (step DeleteClick s) = timers s - held_timer s \<and>
            toasts (step DeleteClick s)
              = toasts s @ [success_toast ''Image deleted successfully''] \<and>
            liveUrls (step DeleteClick s) = liveUrls s - session_refs img \<and>
            (liveUrls s \<subseteq> session_refs img \<longrightarrow> liveUrls (step DeleteClick s) = {}) \<and>
            fileInputRef (step DeleteClick s) = Some UploadInput \<and>
            uploadInput (step DeleteClick s) = Some [] \<and>
            (truthy_str (originalUrl img) \<longrightarrow>
               fileInputRef s = None \<and> originalInput (step DeleteClick s) = Some [])"
    if img: "image_state s = Some img" for img
  proof -
    let ?d = "handleDelete s"
    note f = handleDelete_fields [OF img]
    note g = step_DeleteClick_fields [OF img c]
    note h = session_hides_inputs [OF assms img]
    have st: "step DeleteClick s = flushEffects (render ?d)"
      by (simp add: step_def)
    have timer: "timerRef (step DeleteClick s) = None \<and> t \<notin> timers (step DeleteClick s)"
      if "timerRef s = Some t \<and> truthy_id t" for t
      using that by (simp add: g timerRef_cleared_def held_timer_def)
    have live: "liveUrls s \<subseteq> session_refs img \<longrightarrow> liveUrls (step DeleteClick s) = {}"
      by (auto simp: g)
    have up: "uploadInput ?d = None"
      using h(1) by (simp add: f)
    have mount: "fileInputRef (step DeleteClick s) = Some UploadInput"
      "uploadInput (step DeleteClick s) = Some []"
      by (simp_all add: st inputs_flushEffects render_mounts_upload [OF _ up])
    have orig: "fileInputRef s = None \<and> originalInput (step DeleteClick s) = Some []"
      if t: "truthy_str (originalUrl img)"
    proof -
      have "originalInput ?d = None"
        using h(2) [OF t] by (simp add: f)
      then have "originalInput (step DeleteClick s) = Some []"
        by (simp add: st inputs_flushEffects render_mounts_original)
      with h(3) [OF t] show ?thesis by simp
    qed
    have "image_state (step DeleteClick s) = None"
      by (simp add: st)
    then show ?thesis
      using g timer live mount orig by blast
  qed
  show ?thesis using none some by blast
qed

theorem delete_clears_session_witness:
  "uploadInput picked = Some ''fakepath/cat.jpg'' \<and>
   reachable first_run_pending \<and> image_state first_run_pending = Some pending_session \<and>
   timerRef first_run_pending = Some 1 \<and> truthy_id 1 \<and> 1 \<in> timers first_run_pending \<and>
   truthy_str (originalUrl pending_session) \<and>
   liveUrls first_run_pending \<subseteq> session_refs pending_session \<and>
   image_state (step DeleteClick first_run_pending) = None \<and>
   isProcessing (step DeleteClick first_run_pending) = False \<and>
   progress (step DeleteClick first_run_pending) = 0 \<and>
   timeLeft (step DeleteClick first_run_pending) = 0 \<and>
   timerRef (step DeleteClick first_run_pending) = None \<and>
   timers (step DeleteClick first_run_pending) = {} \<and>
   toasts (step DeleteClick first_run_pending)
     = [success_toast ''Image deleted successfully''] \<and>
   liveUrls (step DeleteClick first_run_pending) = {} \<and>
   fileInputRef first_run_pending = None \<and>
   fileInputRef (step DeleteClick first_run_pending) = Some UploadInput \<and>
   uploadInput (step DeleteClick first_run_pending) = Some [] \<and>
   originalInput (step DeleteClick first_run_pending) = Some [] \<and>
   reachable initial \<and> image_state initial = None \<and> step DeleteClick initial = initial"
  using delete_clears_session [OF reachable_first_run_pending]
    delete_clears_session [OF reachable_initial] reachable_first_run_pending reachable_initial
  by (simp add: first_run_pending_eq pending_session_def session_refs_def truthy_id_def
      truthy_str_def initial_def picked_eq held_timer_def)

section \<open>Processing\<close>

text \<open>
  C5: when the pending call of \<open>removeBackground\<close> rejects in a reachable state with a
  session, then after the callback and its commit the session is the one of before with
  the status \<open>failed\<close>: its original file is the same and the field \<open>originalUrl\<close> holds
  the same string; progress and countdown are 0, \<open>isProcessing\<close> is false, the toast
  \<open>Processing failed\<close> has been shown, the interval of the run is cancelled and a new
  processing request is not ignored. The
  original reference itself does not stay as it was: storing the failed session gives
  \<open>image\<close> a new object, so the commit runs the cleanup that closes over the object of
  before, and that cleanup revokes \<open>originalUrl\<close> (and \<open>processedUrl\<close>), which the session
  still holds and the component still renders.
\<close>

theorem segmentation_failure:
  assumes "reachable s" and "timer \<in> set (runs s)" and "image_state s = Some img"
  shows "image_state (step (RunRejected timer) s) = Some (img\<lparr> status := Failed \<rparr>) \<and>
         original (img\<lparr> status := Failed \<rparr>) = original img \<and>
         originalUrl (img\<lparr> status := Failed \<rparr>) = originalUrl img \<and>
         progress (step (RunRejected timer) s) = 0 \<and>
         timeLeft (step (RunRejected timer) s) = 0 \<and>
         isProcessing (step (RunRejected timer) s) = False \<and>
         toasts (step (RunRejected timer) s) = toasts s @ [processing_failed_toast] \<and>
         \<not> process_ignored (step (RunRejected timer) s) \<and>
         isProcessing (handleProcess_rejected timer s) = False \<and>
         (truthy_id timer \<longrightarrow> timer \<notin> timers (step (RunRejected timer) s)) \<and>
         liveUrls (step (RunRejected timer) s) = liveUrls s - session_refs img \<and>
         (truthy_str (originalUrl img) \<longrightarrow>
            originalUrl img \<notin> liveUrls (step (RunRejected timer) s))"
proof -
  let ?c = "handleProcess_rejected timer s"
  have st: "step (RunRejected timer) s = flushEffects (render ?c)"
    using assms(2) by (simp add: step_def)
  have c: "pendingCleanup s = None"
    using assms(1) by (rule reachable_committed)
  have ok: "original img \<noteq> None"
    using reachable_session_ok [OF assms(1,3)] by (simp add: session_ok_def)
  have img: "image_state (step (RunRejected timer) s) = Some (img\<lparr> status := Failed \<rparr>)"
    using assms(3) by (simp add: st image_state_handleProcess_rejected)
  have cells: "progress (step (RunRejected timer) s) = 0"
    "timeLeft (step (RunRejected timer) s) = 0"
    "\<not> isProcessing (step (RunRejected timer) s)"
    unfolding st by (rule flushEffects_cells; simp add: handleProcess_rejected_cells)+
  have t: "toasts (step (RunRejected timer) s) = toasts s @ [processing_failed_toast]"
    by (simp add: st toasts_flushEffects toasts_handleProcess_rejected)
  have l: "liveUrls (step (RunRejected timer) s) = liveUrls s - session_refs img"
    by (simp add: st liveUrls_flushEffects liveUrls_handleProcess_rejected
        pendingCleanup_handleProcess_rejected [OF assms(3) c])
  have "truthy_str (originalUrl img) \<longrightarrow> originalUrl img \<in> session_refs img"
    by (simp add: session_refs_def)
  with l have r: "truthy_str (originalUrl img) \<longrightarrow>
      originalUrl img \<notin> liveUrls (step (RunRejected timer) s)"
    by auto
  have p: "\<not> process_ignored (step (RunRejected timer) s)"
    using ok cells(3) by (simp add: process_ignored_def img)
  have tc: "truthy_id timer \<longrightarrow> timer \<notin> timers (step (RunRejected timer) s)"
    using assms(2) by (simp add: timer_cancelled_after_rejection)
  show ?thesis
    using img cells t l r p tc by (simp add: handleProcess_rejected_cells)
qed

theorem segmentation_failure_witness:
  "reachable first_run_pending \<and> 1 \<in> set (runs first_run_pending) \<and>
   image_state first_run_pending = Some pending_session \<and>
   originalUrl pending_session = ''blob:1'' \<and> ''blob:1'' \<in> liveUrls first_run_pending \<and>
   image_state (step (RunRejected 1) first_run_pending)
     = Some (pending_session\<lparr> status := Failed \<rparr>) \<and>
   originalUrl (pending_session\<lparr> status := Failed \<rparr>) = ''blob:1'' \<and>
   original (pending_session\<lparr> status := Failed \<rparr>) = Some photo_compressed \<and>
   progress (step (RunRejected 1) first_run_pending) = 0 \<and>
   timeLeft (step (RunRejected 1) first_run_pending) = 0 \<and>
   toasts (step (RunRejected 1) first_run_pending) = [processing_failed_toast] \<and>
   \<not> process_ignored (step (RunRejected 1) first_run_pending) \<and>
   truthy_id 1 \<and> 1 \<in> timers first_run_pending \<and>
   1 \<notin> timers (step (RunRejected 1) first_run_pending) \<and>
   ''blob:1'' \<notin> liveUrls (step (RunRejected 1) first_run_pending)"
  using segmentation_failure [OF reachable_first_run_pending, of 1 pending_session]
    reachable_first_run_pending
  by (simp add: first_run_pending_eq pending_session_def session_refs_def truthy_str_def
      truthy_id_def)

text \<open>
  C7, as the claim states it, fails in its last part: delete resets \<open>isProcessing\<close>
  without aborting the pending call of \<open>removeBackground\<close>, so after a delete and a new
  upload a second run starts while the first is still pending.
\<close>

theorem two_runs_in_flight:
  "reachable two_runs \<and> runs two_runs = [1, 2] \<and> length (runs two_runs) = 2"
  using reachable_two_runs by (simp add: two_runs_eq)

text \<open>
  C7, amended: while \<open>isProcessing\<close> is true, a processing request is ignored: the
  callback returns the state as it is and starts no run, and in a reachable state the
  commit changes nothing either.
\<close>

theorem process_request_ignored_while_processing:
  assumes "isProcessing s"
  shows "handleProcess timer s = s \<and>
         runs (step (ProcessClick timer) s) = runs s \<and>
         (reachable s \<longrightarrow> step (ProcessClick timer) s = s)"
proof -
  have h: "handleProcess timer s = s"
    using assms by (simp add: handleProcess_def process_ignored_def)
  have "step (ProcessClick timer) s = s" if r: "reachable s"
  proof -
    have "step (ProcessClick timer) s = callback (ProcessClick timer) s"
      using r by (rule step_unchanged) (simp_all add: h reachable_committed [OF r])
    then show ?thesis by (simp add: h)
  qed
  moreover have "runs (step (ProcessClick timer) s) = runs s"
    by (simp add: step_def h runs_flushEffects)
  ultimately show ?thesis using h by blast
qed

theorem process_request_ignored_while_processing_witness:
  "isProcessing retry_pending \<and> reachable retry_pending \<and>
   handleProcess 3 retry_pending = retry_pending \<and>
   step (ProcessClick 3) retry_pending = retry_pending \<and>
   runs (step (ProcessClick 3) retry_pending) = [2]"
  using process_request_ignored_while_processing [of retry_pending 3] reachable_retry_pending
  by (simp add: retry_pending_eq)

section \<open>Download\<close>

text \<open>
  C8, as the claim states it, fails: for a completed session whose file name ends in a
  dot, \<open>holiday.\<close>, nothing follows the last dot, the pattern \<open>/\.[^/.]+$/\<close> asks for at
  least one character there and does not match, and the download is saved as
  \<open>processed_holiday..png\<close>, while the stem before the last dot gives
  \<open>processed_holiday.png\<close>.
\<close>

theorem download_name_of_trailing_dot:
  "reachable dotted_done \<and>
   map_option status (image_state dotted_done) = Some Completed \<and>
   map_option name (image_state dotted_done) = Some ''holiday.'' \<and>
   map fst (downloads (step (DownloadClick ''blob:4'') dotted_done))
     = [''processed_holiday..png''] \<and>
   spec_download_name ''holiday.'' = ''processed_holiday.png''"
  using reachable_dotted_done
  by (simp add: dotted_done_eq completed_session_def step_def handleDownload_def Let_def
      createObjectURL_def revokeObjectURL_def truthy_str_def flushEffects_def render_def
      original_input_rendered_def upload_input_rendered_def
      download_name_def spec_download_name_def spec_stem_def)

text \<open>
  C8, amended: for every reachable state with a completed session whose file name \<open>n\<close>
  is not empty, download saves the processed blob under \<open>processed_<stem>.png\<close>, where
  the stem is \<open>n\<close> without its last dot and what follows it if at least one character
  follows that dot and none of them is \<open>/\<close>, and the whole of \<open>n\<close> otherwise; it changes
  nothing of the state but the list of saved files (the object URL it creates for the
  link is released again), so the session is as before.
\<close>

theorem download_filename:
  assumes "reachable s" and "image_state s = Some img" and "status img = Completed"
    and "name img \<noteq> []"
  shows "(\<exists>blob. processed img = Some blob \<and>
            step (DownloadClick link_href) s =
              s\<lparr> liveUrls := liveUrls s - {link_href},
                 downloads := downloads s @ [(download_name (name img), blob)] \<rparr>) \<and>
         image_state (step (DownloadClick link_href) s) = image_state s \<and>
         download_name (name img) =
           (if CHR ''.'' \<in> set (name img) \<and> spec_ext (name img) \<noteq> [] \<and>
               CHR ''/'' \<notin> set (spec_ext (name img))
            then spec_download_name (name img)
            else ''processed_'' @ name img @ ''.png'')"
proof -
  have "session_ok img"
    using assms(1,2) by (rule reachable_session_ok)
  then obtain blob where blob: "processed img = Some blob"
    using assms(3) by (auto simp: session_ok_def)
  have c: "pendingCleanup s = None"
    using assms(1) by (rule reachable_committed)
  note h = handleDownload_eq [OF assms(2) blob assms(4), of link_href]
  have "step (DownloadClick link_href) s = callback (DownloadClick link_href) s"
    using assms(1) by (rule step_unchanged) (simp_all add: h c)
  then have "step (DownloadClick link_href) s =
      s\<lparr> liveUrls := liveUrls s - {link_href},
         downloads := downloads s @ [(download_name (name img), blob)] \<rparr>"
    by (simp add: h)
  moreover have "image_state (step (DownloadClick link_href) s) = image_state s"
    by (simp add: step_def)
  moreover have "download_name (name img) =
           (if CHR ''.'' \<in> set (name img) \<and> spec_ext (name img) \<noteq> [] \<and>
               CHR ''/'' \<notin> set (spec_ext (name img))
            then spec_download_name (name img)
            else ''processed_'' @ name img @ ''.png'')"
    by (simp add: download_name_def spec_download_name_def replace_ext_spec)
  ultimately show ?thesis using blob by blast
qed

theorem download_filename_witness:
  "reachable processed_once \<and> image_state processed_once = Some completed_session \<and>
   status completed_session = Completed \<and> name completed_session = ''cat.jpg'' \<and>
   step (DownloadClick ''blob:4'') processed_once =
     processed_once\<lparr> downloads :=
       [(''processed_cat.png'', \<lparr> blob_type = ''image/png'', blob_bytes = [137, 80] \<rparr>)] \<rparr> \<and>
   image_state (step (DownloadClick ''blob:4'') processed_once) = Some completed_session \<and>
   spec_ext ''cat.jpg'' = ''jpg'' \<and>
   download_name ''cat.jpg'' = spec_download_name ''cat.jpg'' \<and>
   spec_download_name ''cat.jpg'' = ''processed_cat.png''"
  using download_filename [OF reachable_processed_once, of completed_session "''blob:4''"]
    reachable_processed_once
  by (auto simp add: processed_once_eq completed_session_def spec_ext_def
      spec_download_name_def spec_stem_def)

section \<open>The reported percentage\<close>





end
